theory Spec2Isabelle
  imports Main
begin

unbundle bit_operations_syntax

section \<open>Python text and integer primitives used by ErrorX.py\<close>

text \<open>
  Python \<^verbatim>\<open>str\<close> values are modelled as lists of 8-bit characters, Python integers as
  \<^typ>\<open>int\<close>. The helpers below are the built-ins the modelled functions call, written
  out for the arguments the source passes to them.
\<close>

datatype error = ValueError | TypeError | IndexError | AssertionError | KeyboardInterrupt | RecursionError

definition py_whitespace :: "char \<Rightarrow> bool" where
  \<comment> \<open>the characters \<^verbatim>\<open>str.strip()\<close> and \<^verbatim>\<open>int()\<close> skip, among code points below 256\<close>
  "py_whitespace c =
     (let n = (of_char c :: nat)
      in (9 \<le> n \<and> n \<le> 13) \<or> (28 \<le> n \<and> n \<le> 32) \<or> n = 133 \<or> n = 160)"

definition py_strip :: "string \<Rightarrow> string" where
  "py_strip s = rev (dropWhile py_whitespace (rev (dropWhile py_whitespace s)))"

definition upper_char :: "char \<Rightarrow> char" where
  "upper_char c =
     (let n = (of_char c :: nat)
      in if 97 \<le> n \<and> n \<le> 122 then char_of (n - 32) else c)"

definition py_upper :: "string \<Rightarrow> string" where
  \<comment> \<open>\<^verbatim>\<open>str.upper()\<close> on ASCII text\<close>
  "py_upper s = map upper_char s"

definition replace_char :: "char \<Rightarrow> char \<Rightarrow> string \<Rightarrow> string" where
  \<comment> \<open>\<^verbatim>\<open>s.replace(a, b)\<close> for one-character \<^verbatim>\<open>a\<close> and \<^verbatim>\<open>b\<close>\<close>
  "replace_char a b s = map (\<lambda>c. if c = a then b else c) s"

definition remove_char :: "char \<Rightarrow> string \<Rightarrow> string" where
  \<comment> \<open>\<^verbatim>\<open>s.replace(a, '')\<close> for a one-character \<^verbatim>\<open>a\<close>\<close>
  "remove_char a s = filter (\<lambda>c. c \<noteq> a) s"

fun startswith :: "string \<Rightarrow> string \<Rightarrow> bool" where
  "startswith s [] = True"
| "startswith [] (p # ps) = False"
| "startswith (c # cs) (p # ps) = (c = p \<and> startswith cs ps)"

fun contains :: "string \<Rightarrow> string \<Rightarrow> bool" where
  \<comment> \<open>\<^verbatim>\<open>sub in s\<close>\<close>
  "contains [] sub = (sub = [])"
| "contains (c # cs) sub = (startswith (c # cs) sub \<or> contains cs sub)"

function split_acc :: "string \<Rightarrow> nat option \<Rightarrow> string \<Rightarrow> string \<Rightarrow> string list" where
  "split_acc sep limit acc [] = [rev acc]"
| "split_acc sep limit acc (c # cs) =
     (if sep \<noteq> [] \<and> limit \<noteq> Some 0 \<and> startswith (c # cs) sep
      then rev acc # split_acc sep (map_option (\<lambda>k. k - 1) limit) [] (drop (length sep) (c # cs))
      else split_acc sep limit (c # acc) cs)"
  by pat_completeness auto
termination
  by (relation "measure (\<lambda>(sep, limit, acc, s). length s)") auto

definition py_split :: "string \<Rightarrow> string \<Rightarrow> string list" where
  \<comment> \<open>\<^verbatim>\<open>s.split(sep)\<close> for a non-empty separator\<close>
  "py_split sep s = split_acc sep None [] s"

definition py_split_max :: "string \<Rightarrow> nat \<Rightarrow> string \<Rightarrow> string list" where
  \<comment> \<open>\<^verbatim>\<open>s.split(sep, maxsplit)\<close>\<close>
  "py_split_max sep k s = split_acc sep (Some k) [] s"

fun py_join :: "string \<Rightarrow> string list \<Rightarrow> string" where
  "py_join sep [] = []"
| "py_join sep [x] = x"
| "py_join sep (x # y # ys) = x @ sep @ py_join sep (y # ys)"

definition py_zfill :: "nat \<Rightarrow> string \<Rightarrow> string" where
  \<comment> \<open>\<^verbatim>\<open>s.zfill(width)\<close>: zeros go after a leading sign\<close>
  "py_zfill width s =
     (if width \<le> length s then s
      else (case s of
              c # cs \<Rightarrow>
                if c = CHR ''+'' \<or> c = CHR ''-''
                then c # replicate (width - length s) CHR ''0'' @ cs
                else replicate (width - length s) CHR ''0'' @ s
            | [] \<Rightarrow> replicate width CHR ''0''))"

definition digit_char :: "nat \<Rightarrow> char" where
  \<comment> \<open>the lower-case digit for a value below 16\<close>
  "digit_char d = (if d < 10 then char_of (48 + d) else char_of (87 + d))"

definition digit_value :: "char \<Rightarrow> nat option" where
  \<comment> \<open>the value of an ASCII digit or letter a-f, A-F\<close>
  "digit_value c =
     (let n = (of_char c :: nat)
      in if 48 \<le> n \<and> n \<le> 57 then Some (n - 48)
         else if 97 \<le> n \<and> n \<le> 102 then Some (n - 87)
         else if 65 \<le> n \<and> n \<le> 70 then Some (n - 55)
         else None)"

function digits_of :: "int \<Rightarrow> int \<Rightarrow> string" where
  \<comment> \<open>the digits of a non-negative integer in base 10 or 16, most significant first\<close>
  "digits_of b n =
     (if n < b \<or> b < 2 then [digit_char (nat n)]
      else digits_of b (n div b) @ [digit_char (nat (n mod b))])"
  by pat_completeness auto
termination
  by (relation "measure (\<lambda>(b, n). nat n)") (auto simp: int_div_less_self)

declare digits_of.simps [simp del]

definition py_str :: "int \<Rightarrow> string" where
  \<comment> \<open>\<^verbatim>\<open>str(i)\<close>\<close>
  "py_str i = (if i < 0 then CHR ''-'' # digits_of 10 (- i) else digits_of 10 i)"

definition py_hex :: "int \<Rightarrow> string" where
  \<comment> \<open>\<^verbatim>\<open>hex(i)\<close>\<close>
  "py_hex i = (if i < 0 then ''-0x'' else ''0x'') @ digits_of 16 \<bar>i\<bar>"

fun py_digits :: "int \<Rightarrow> int \<Rightarrow> string \<Rightarrow> int option" where
  \<comment> \<open>a digit, then digits each optionally preceded by one underscore\<close>
  "py_digits b acc [] = None"
| "py_digits b acc (c # cs) =
     (case digit_value c of
        None \<Rightarrow> None
      | Some d \<Rightarrow>
          if b \<le> int d then None
          else (case cs of
                  [] \<Rightarrow> Some (acc * b + int d)
                | c' # cs' \<Rightarrow>
                    if c' = CHR ''_'' then py_digits b (acc * b + int d) cs'
                    else py_digits b (acc * b + int d) cs))"

definition int_space :: "char \<Rightarrow> bool" where
  \<comment> \<open>the characters \<^verbatim>\<open>int()\<close> skips around the digits, among code points below 256:
      those of C \<^verbatim>\<open>isspace\<close> and the two non-ASCII spaces, which it turns into blanks
      first. The separators \<^verbatim>\<open>0x1C\<close> to \<^verbatim>\<open>0x1F\<close>, which \<^verbatim>\<open>str.strip()\<close> removes, are
      not among them\<close>
  "int_space c =
     (let n = (of_char c :: nat)
      in (9 \<le> n \<and> n \<le> 13) \<or> n = 32 \<or> n = 133 \<or> n = 160)"

definition int_strip :: "string \<Rightarrow> string" where
  "int_strip s = rev (dropWhile int_space (rev (dropWhile int_space s)))"

definition py_int :: "int \<Rightarrow> string \<Rightarrow> int option" where
  \<comment> \<open>\<^verbatim>\<open>int(s, base)\<close> for base 10 or 16: surrounding whitespace, an optional sign,
      for base 16 an optional \<^verbatim>\<open>0x\<close> prefix, then the digits; \<^verbatim>\<open>None\<close> stands for
      the ValueError\<close>
  "py_int b s =
     (let t = int_strip s;
          neg = (t \<noteq> [] \<and> hd t = CHR ''-'');
          u = (if t \<noteq> [] \<and> (hd t = CHR ''-'' \<or> hd t = CHR ''+'') then tl t else t);
          v = (if b = 16 \<and> (startswith u ''0x'' \<or> startswith u ''0X'')
               then (if startswith (drop 2 u) ''_'' then drop 3 u else drop 2 u)
               else u)
      in map_option (\<lambda>n. if neg then - n else n) (py_digits b 0 v))"

definition trunc_div :: "int \<Rightarrow> int \<Rightarrow> int" where
  \<comment> \<open>\<^verbatim>\<open>int(a / b)\<close>: the quotient truncated towards zero. Python computes it
      through a float, which is exact for magnitudes below \<^verbatim>\<open>2 ^ 53\<close>\<close>
  "trunc_div a b = (if (a < 0) = (b < 0) then \<bar>a\<bar> div \<bar>b\<bar> else - (\<bar>a\<bar> div \<bar>b\<bar>))"


section \<open>NetworkAddress\<close>

record network_address =
  int_repr :: int
  str_repr :: string

datatype mac_arg = MacStr string | MacInt int | MacOther

definition is_hex_char :: "char \<Rightarrow> bool" where
  \<comment> \<open>the class \<^verbatim>\<open>[0-9A-Fa-f]\<close>\<close>
  "is_hex_char c = (digit_value c \<noteq> None)"

fun match_groups :: "nat \<Rightarrow> string \<Rightarrow> string option" where
  \<comment> \<open>\<^verbatim>\<open>([0-9A-Fa-f]{2}[:-]){n}\<close> at the start of the text; returns what follows\<close>
  "match_groups 0 s = Some s"
| "match_groups (Suc n) (a # b # d # s) =
     (if is_hex_char a \<and> is_hex_char b \<and> (d = CHR '':'' \<or> d = CHR ''-'')
      then match_groups n s else None)"
| "match_groups (Suc n) s = None"

definition is_valid_mac :: "string \<Rightarrow> bool" where
  \<comment> \<open>\<^verbatim>\<open>re.compile(r'^([0-9A-Fa-f]{2}[:-]){5}([0-9A-Fa-f]{2})$').match(mac)\<close>;
      \<^verbatim>\<open>$\<close> matches at the end and before a newline that ends the text\<close>
  "is_valid_mac mac =
     (case match_groups 5 mac of
        None \<Rightarrow> False
      | Some r \<Rightarrow>
          (case r of
             [a, b] \<Rightarrow> is_hex_char a \<and> is_hex_char b
           | [a, b, c] \<Rightarrow> is_hex_char a \<and> is_hex_char b \<and> c = CHR 0x0A
           | _ \<Rightarrow> False))"

definition mac2int :: "string \<Rightarrow> error + int" where
  \<comment> \<open>\<^verbatim>\<open>int(mac.replace(':', ''), 16)\<close>\<close>
  "mac2int mac =
     (case py_int 16 (remove_char CHR '':'' mac) of None \<Rightarrow> Inl ValueError | Some v \<Rightarrow> Inr v)"

definition int2mac :: "int \<Rightarrow> string" where
  "int2mac mac0 =
     (let mac1 = py_upper (last (py_split ''x'' (py_hex mac0)));
          mac2 = py_zfill 12 mac1
      in py_join '':'' (map (\<lambda>i. take 2 (drop i mac2)) [0, 2, 4, 6, 8, 10]))"

definition NetworkAddress :: "mac_arg \<Rightarrow> error + network_address" where
  \<comment> \<open>\<^verbatim>\<open>NetworkAddress.__init__\<close>; the text branch hands the argument as given,
      not its normalised form, to \<^verbatim>\<open>_mac2int\<close>\<close>
  "NetworkAddress mac =
     (case mac of
        MacInt i \<Rightarrow> Inr \<lparr>int_repr = i, str_repr = int2mac i\<rparr>
      | MacStr s \<Rightarrow>
          (let str = py_upper (replace_char CHR ''.'' CHR '':'' (replace_char CHR ''-'' CHR '':'' s))
           in if \<not> is_valid_mac str then Inl ValueError
              else (case mac2int s of
                      Inl e \<Rightarrow> Inl e
                    | Inr v \<Rightarrow> Inr \<lparr>int_repr = v, str_repr = str\<rparr>))
      | MacOther \<Rightarrow> Inl ValueError)"

definition set_integer :: "int \<Rightarrow> network_address \<Rightarrow> network_address" where
  \<comment> \<open>the \<^verbatim>\<open>integer\<close> setter\<close>
  "set_integer v m = m\<lparr>int_repr := v, str_repr := int2mac v\<rparr>"

definition iadd :: "network_address \<Rightarrow> int \<Rightarrow> network_address" where
  \<comment> \<open>\<^verbatim>\<open>__iadd__\<close>\<close>
  "iadd m other = set_integer (int_repr m + other) m"

section \<open>EnhancedWPSpin\<close>

function checksum_loop :: "int \<Rightarrow> int \<Rightarrow> int" where
  \<comment> \<open>the \<^verbatim>\<open>while pin:\<close> loop of \<^verbatim>\<open>checksum\<close>, on \<^verbatim>\<open>accum\<close> and \<^verbatim>\<open>pin\<close>\<close>
  "checksum_loop accum pin =
     (if pin = 0 then accum
      else checksum_loop (accum + 3 * (pin mod 10) + trunc_div pin 10 mod 10)
             (trunc_div (trunc_div pin 10) 10))"
  by pat_completeness auto
termination
  by (relation "measure (\<lambda>(accum, pin). nat \<bar>pin\<bar>)") (auto simp: trunc_div_def)

declare checksum_loop.simps [simp del]

definition checksum :: "int \<Rightarrow> int" where
  "checksum pin = (10 - checksum_loop 0 pin mod 10) mod 10"

datatype pin_value = PinInt int | PinStr string

datatype algo_mode = ALGO_MAC | ALGO_EMPTY | ALGO_STATIC

record algo =
  name :: string
  mode :: algo_mode
  gen :: "network_address \<Rightarrow> error + pin_value"

definition pin24 :: "network_address \<Rightarrow> error + pin_value" where
  "pin24 mac = Inr (PinInt (int_repr mac AND 0xFFFFFF))"

definition pin28 :: "network_address \<Rightarrow> error + pin_value" where
  "pin28 mac = Inr (PinInt (int_repr mac AND 0xFFFFFFF))"

definition pin32 :: "network_address \<Rightarrow> error + pin_value" where
  "pin32 mac = Inr (PinInt (int_repr mac mod 0x100000000))"

definition pinDLink :: "network_address \<Rightarrow> error + pin_value" where
  "pinDLink mac =
     (let nic = int_repr mac AND 0xFFFFFF;
          pin0 = nic XOR 0x55AA55;
          pin1 = pin0 XOR (push_bit 4 (pin0 AND 0xF) + push_bit 8 (pin0 AND 0xF)
                   + push_bit 12 (pin0 AND 0xF) + push_bit 16 (pin0 AND 0xF)
                   + push_bit 20 (pin0 AND 0xF));
          pin2 = pin1 mod 10000000
      in Inr (PinInt (if pin2 < 1000000 then pin2 + ((pin2 mod 9) * 1000000 + 1000000) else pin2)))"

definition pinDLink1 :: "network_address \<Rightarrow> error + pin_value" where
  "pinDLink1 mac = pinDLink (iadd mac 1)"

definition octets :: "network_address \<Rightarrow> error + int list" where
  \<comment> \<open>\<^verbatim>\<open>b = [int(i, 16) for i in mac.string.split(':')]\<close>\<close>
  "octets mac =
     (case those (map (py_int 16) (py_split '':'' (str_repr mac))) of
        None \<Rightarrow> Inl ValueError
      | Some b \<Rightarrow> Inr b)"

definition pinASUS :: "network_address \<Rightarrow> error + pin_value" where
  "pinASUS mac =
     (case octets mac of
        Inl e \<Rightarrow> Inl e
      | Inr b \<Rightarrow>
          if length b < 6 then Inl IndexError
          else (case py_int 10 (concat (map (\<lambda>i.
                        py_str ((b ! (i mod 6) + b ! 5)
                                mod (10 - (int i + b ! 1 + b ! 2 + b ! 3 + b ! 4 + b ! 5) mod 7)))
                      [0 ..< 7])) of
                  None \<Rightarrow> Inl ValueError
                | Some v \<Rightarrow> Inr (PinInt v)))"

definition pinAirocon :: "network_address \<Rightarrow> error + pin_value" where
  "pinAirocon mac =
     (case octets mac of
        Inl e \<Rightarrow> Inl e
      | Inr b \<Rightarrow>
          if length b < 6 then Inl IndexError
          else Inr (PinInt (((b ! 0 + b ! 1) mod 10)
                 + (((b ! 5 + b ! 0) mod 10) * 10)
                 + (((b ! 4 + b ! 5) mod 10) * 100)
                 + (((b ! 3 + b ! 4) mod 10) * 1000)
                 + (((b ! 2 + b ! 3) mod 10) * 10000)
                 + (((b ! 1 + b ! 2) mod 10) * 100000)
                 + (((b ! 0 + b ! 1) mod 10) * 1000000))))"

definition static_pin :: "string \<Rightarrow> int \<Rightarrow> algo" where
  \<comment> \<open>an entry \<^verbatim>\<open>{'name': n, 'mode': self.ALGO_STATIC, 'gen': lambda mac: v}\<close>\<close>
  "static_pin n v = \<lparr>name = n, mode = ALGO_STATIC, gen = (\<lambda>mac. Inr (PinInt v))\<rparr>"

definition algos :: "(string \<times> algo) list" where
  \<comment> \<open>\<^verbatim>\<open>self.algos\<close>, in the order of the dictionary literal\<close>
  "algos =
     [(''pin24'', \<lparr>name = ''24-bit PIN'', mode = ALGO_MAC, gen = pin24\<rparr>),
      (''pin28'', \<lparr>name = ''28-bit PIN'', mode = ALGO_MAC, gen = pin28\<rparr>),
      (''pin32'', \<lparr>name = ''32-bit PIN'', mode = ALGO_MAC, gen = pin32\<rparr>),
      (''pinDLink'', \<lparr>name = ''D-Link PIN'', mode = ALGO_MAC, gen = pinDLink\<rparr>),
      (''pinDLink1'', \<lparr>name = ''D-Link PIN +1'', mode = ALGO_MAC, gen = pinDLink1\<rparr>),
      (''pinASUS'', \<lparr>name = ''ASUS PIN'', mode = ALGO_MAC, gen = pinASUS\<rparr>),
      (''pinAirocon'', \<lparr>name = ''Airocon Realtek'', mode = ALGO_MAC, gen = pinAirocon\<rparr>),
      (''pinEmpty'', \<lparr>name = ''Empty PIN'', mode = ALGO_EMPTY, gen = (\<lambda>mac. Inr (PinStr []))\<rparr>),
      (''pinCisco'', static_pin ''Cisco'' 1234567),
      (''pinBrcm1'', static_pin ''Broadcom 1'' 2017252),
      (''pinBrcm2'', static_pin ''Broadcom 2'' 4626484),
      (''pinBrcm3'', static_pin ''Broadcom 3'' 7622990),
      (''pinBrcm4'', static_pin ''Broadcom 4'' 6232714),
      (''pinBrcm5'', static_pin ''Broadcom 5'' 1086411),
      (''pinBrcm6'', static_pin ''Broadcom 6'' 3195719),
      (''pinAirc1'', static_pin ''Airocon 1'' 3043203),
      (''pinAirc2'', static_pin ''Airocon 2'' 7141225),
      (''pinDSL2740R'', static_pin ''DSL-2740R'' 6817554),
      (''pinRealtek1'', static_pin ''Realtek 1'' 9566146),
      (''pinRealtek2'', static_pin ''Realtek 2'' 9571911),
      (''pinRealtek3'', static_pin ''Realtek 3'' 4856371),
      (''pinUpvel'', static_pin ''Upvel'' 2085483),
      (''pinUR814AC'', static_pin ''UR-814AC'' 4397768),
      (''pinUR825AC'', static_pin ''UR-825AC'' 529417),
      (''pinOnlime'', static_pin ''Onlime'' 9995604),
      (''pinEdimax'', static_pin ''Edimax'' 3561153),
      (''pinThomson'', static_pin ''Thomson'' 6795814),
      (''pinHG532x'', static_pin ''HG532x'' 3425928),
      (''pinH108L'', static_pin ''H108L'' 9422988),
      (''pinONO'', static_pin ''CBN ONO'' 9575521)]"

definition generate_try :: "string \<Rightarrow> mac_arg \<Rightarrow> error + pin_value" where
  \<comment> \<open>the body of the \<^verbatim>\<open>try\<close> block of \<^verbatim>\<open>generate\<close>; \<^verbatim>\<open>Inl\<close> is an exception raised in it\<close>
  "generate_try algo mac =
     (case NetworkAddress mac of
        Inl e \<Rightarrow> Inl e
      | Inr m \<Rightarrow>
          (case map_of algos algo of
             None \<Rightarrow> Inl ValueError
           | Some a \<Rightarrow>
               (case gen a m of
                  Inl e \<Rightarrow> Inl e
                | Inr pin \<Rightarrow>
                    if algo = ''pinEmpty'' then Inr pin
                    else (case pin of
                            PinStr s \<Rightarrow> Inl TypeError
                          | PinInt v \<Rightarrow>
                              (let p = v mod 10000000;
                                   s = py_str p @ py_str (checksum p)
                               in Inr (PinStr (py_zfill 8 s)))))))"

definition generate :: "string \<Rightarrow> mac_arg \<Rightarrow> error + pin_value option" where
  \<comment> \<open>\<^verbatim>\<open>generate\<close>: \<^verbatim>\<open>except Exception\<close> logs whatever the body raised and returns
      \<^verbatim>\<open>None\<close>; \<^verbatim>\<open>Inl\<close> would be an exception that reaches the caller\<close>
  "generate algo mac =
     (case generate_try algo mac of
        Inl e \<Rightarrow> Inr None
      | Inr pin \<Rightarrow> Inr (Some pin))"

section \<open>The trace classifier\<close>

definition get_hex :: "string \<Rightarrow> string" where
  "get_hex line =
     (let a = py_split_max '':'' 3 line
      in if 3 \<le> length a then py_upper (remove_char CHR '' '' (a ! 2)) else [])"

record pixiewps_data =
  pke :: string
  pkr :: string
  e_hash1 :: string
  e_hash2 :: string
  authkey :: string
  e_nonce :: string

definition PixiewpsData :: pixiewps_data where
  \<comment> \<open>\<^verbatim>\<open>PixiewpsData.__init__\<close>, also the state after \<^verbatim>\<open>clear()\<close>\<close>
  "PixiewpsData = \<lparr>pke = [], pkr = [], e_hash1 = [], e_hash2 = [], authkey = [], e_nonce = []\<rparr>"

definition got_all :: "pixiewps_data \<Rightarrow> bool" where
  \<comment> \<open>the truth value of \<^verbatim>\<open>self.pke and self.pkr and self.e_nonce and self.authkey
      and self.e_hash1 and self.e_hash2\<close>\<close>
  "got_all p =
     (pke p \<noteq> [] \<and> pkr p \<noteq> [] \<and> e_nonce p \<noteq> [] \<and> authkey p \<noteq> []
      \<and> e_hash1 p \<noteq> [] \<and> e_hash2 p \<noteq> [])"

record connection_status =
  status :: string
  last_m_message :: int
  essid :: string
  wpa_psk :: string

definition ConnectionStatus :: connection_status where
  \<comment> \<open>\<^verbatim>\<open>ConnectionStatus.__init__\<close>, also the state after \<^verbatim>\<open>clear()\<close>\<close>
  "ConnectionStatus = \<lparr>status = [], last_m_message = 0, essid = [], wpa_psk = []\<rparr>"

definition isFirstHalfValid :: "connection_status \<Rightarrow> bool" where
  "isFirstHalfValid cs = (5 < last_m_message cs)"

text \<open>
  The fields of \<^verbatim>\<open>EnhancedCompanion\<close> that the modelled methods read or write.
  \<^verbatim>\<open>mask\<close> is \<^verbatim>\<open>self.bruteforce.mask\<close> (the timing statistics of
  \<^verbatim>\<open>BruteforceStatus\<close> are informational and left out). Two fields record effects on
  the outside: \<^verbatim>\<open>tried\<close> lists the PINs of the calls of \<^verbatim>\<open>single_connection\<close>
  that returned, oldest first, and \<^verbatim>\<open>session\<close> is the content of the session file.
\<close>

record companion =
  interface :: string
  pixie_creds :: pixiewps_data
  conn :: connection_status
  mask :: string
  tried :: "string list"
  session :: "string option"

definition rstrip_newlines :: "string \<Rightarrow> string" where
  \<comment> \<open>\<^verbatim>\<open>line.rstrip('\n')\<close>\<close>
  "rstrip_newlines s = rev (dropWhile (\<lambda>c. c = CHR 0x0A) (rev s))"

definition hex_space :: "char \<Rightarrow> bool" where
  \<comment> \<open>the ASCII whitespace \<^verbatim>\<open>bytes.fromhex\<close> skips between bytes\<close>
  "hex_space c = (let n = (of_char c :: nat) in (9 \<le> n \<and> n \<le> 13) \<or> n = 32)"

fun fromhex :: "string \<Rightarrow> string option" where
  \<comment> \<open>\<^verbatim>\<open>bytes.fromhex(s)\<close>; \<^verbatim>\<open>None\<close> stands for the ValueError\<close>
  "fromhex [] = Some []"
| "fromhex [c] = (if hex_space c then Some [] else None)"
| "fromhex (c # d # s) =
     (if hex_space c then fromhex (d # s)
      else (case (digit_value c, digit_value d) of
              (Some h, Some l) \<Rightarrow> map_option (\<lambda>r. char_of (16 * h + l) # r) (fromhex s)
            | _ \<Rightarrow> None))"

definition set_status :: "string \<Rightarrow> companion \<Rightarrow> companion" where
  "set_status v st = st\<lparr>conn := (conn st)\<lparr>status := v\<rparr>\<rparr>"

definition set_last_m :: "int \<Rightarrow> companion \<Rightarrow> companion" where
  "set_last_m n st = st\<lparr>conn := (conn st)\<lparr>last_m_message := n\<rparr>\<rparr>"

definition quoted_name :: "string \<Rightarrow> string" where
  \<comment> \<open>\<^verbatim>\<open>"'".join(line.split("'")[1:-1])\<close>\<close>
  "quoted_name line = py_join [CHR 0x27] (butlast (tl (py_split [CHR 0x27] line)))"

definition set_essid :: "(string \<Rightarrow> string option) \<Rightarrow> string \<Rightarrow> companion \<Rightarrow> bool \<times> companion" where
  \<comment> \<open>the assignment of \<^verbatim>\<open>essid\<close> when the line holds \<^verbatim>\<open>SSID\<close>. The chain
      \<^verbatim>\<open>codecs.decode(..., 'unicode-escape').encode('latin1').decode('utf-8', errors='replace')\<close>
      is library code; it is the parameter \<open>decode\<close>, \<^verbatim>\<open>None\<close> where it raises\<close>
  "set_essid decode line st =
     (if contains line ''SSID''
      then (case decode (quoted_name line) of
              None \<Rightarrow> (False, st)
            | Some v \<Rightarrow> (True, st\<lparr>conn := (conn st)\<lparr>essid := v\<rparr>\<rparr>))
      else (True, st))"

definition message_number :: "string \<Rightarrow> companion \<Rightarrow> bool \<times> companion" where
  \<comment> \<open>\<^verbatim>\<open>n = int(text); self.connection_status.last_m_message = n\<close>\<close>
  "message_number text st =
     (case py_int 10 text of
        None \<Rightarrow> (False, st)
      | Some n \<Rightarrow> (True, set_last_m n st))"

definition store_e_nonce :: "string \<Rightarrow> companion \<Rightarrow> bool \<times> companion" where
  \<comment> \<open>\<^verbatim>\<open>self.pixie_creds.e_nonce = get_hex(line); assert(len(self.pixie_creds.e_nonce) == 16*2)\<close>:
      the flag is the truth of the assertion, the assignment comes before it\<close>
  "store_e_nonce line st =
     (let st' = st\<lparr>pixie_creds := (pixie_creds st)\<lparr>e_nonce := get_hex line\<rparr>\<rparr>
      in (length (e_nonce (pixie_creds st')) = 16 * 2, st'))"

definition store_pkr :: "string \<Rightarrow> companion \<Rightarrow> bool \<times> companion" where
  "store_pkr line st =
     (let st' = st\<lparr>pixie_creds := (pixie_creds st)\<lparr>pkr := get_hex line\<rparr>\<rparr>
      in (length (pkr (pixie_creds st')) = 192 * 2, st'))"

definition store_pke :: "string \<Rightarrow> companion \<Rightarrow> bool \<times> companion" where
  "store_pke line st =
     (let st' = st\<lparr>pixie_creds := (pixie_creds st)\<lparr>pke := get_hex line\<rparr>\<rparr>
      in (length (pke (pixie_creds st')) = 192 * 2, st'))"

definition store_authkey :: "string \<Rightarrow> companion \<Rightarrow> bool \<times> companion" where
  "store_authkey line st =
     (let st' = st\<lparr>pixie_creds := (pixie_creds st)\<lparr>authkey := get_hex line\<rparr>\<rparr>
      in (length (authkey (pixie_creds st')) = 32 * 2, st'))"

definition store_e_hash1 :: "string \<Rightarrow> companion \<Rightarrow> bool \<times> companion" where
  "store_e_hash1 line st =
     (let st' = st\<lparr>pixie_creds := (pixie_creds st)\<lparr>e_hash1 := get_hex line\<rparr>\<rparr>
      in (length (e_hash1 (pixie_creds st')) = 32 * 2, st'))"

definition store_e_hash2 :: "string \<Rightarrow> companion \<Rightarrow> bool \<times> companion" where
  "store_e_hash2 line st =
     (let st' = st\<lparr>pixie_creds := (pixie_creds st)\<lparr>e_hash2 := get_hex line\<rparr>\<rparr>
      in (length (e_hash2 (pixie_creds st')) = 32 * 2, st'))"

definition store_network_key :: "string \<Rightarrow> companion \<Rightarrow> bool \<times> companion" where
  \<comment> \<open>\<^verbatim>\<open>status = 'GOT_PSK'\<close>, then \<^verbatim>\<open>wpa_psk = bytes.fromhex(get_hex(line)).decode('utf-8', errors='replace')\<close>.
      The model keeps the bytes of the key; their decoding cannot fail and no modelled
      method reads the result\<close>
  "store_network_key line st =
     (let st' = set_status ''GOT_PSK'' st
      in (case fromhex (get_hex line) of
            None \<Rightarrow> (False, st')
          | Some key \<Rightarrow> (True, st'\<lparr>conn := (conn st')\<lparr>wpa_psk := key\<rparr>\<rparr>)))"

definition wps_line :: "string \<Rightarrow> companion \<Rightarrow> bool \<times> companion" where
  \<comment> \<open>the branch \<^verbatim>\<open>if line.startswith('WPS: ')\<close> of \<^verbatim>\<open>__handle_wpas\<close>. Where the
      separator occurs in the line, \<^verbatim>\<open>split\<close> gives at least two parts\<close>
  "wps_line line st =
     (if contains line ''Building Message M'' then
        message_number (remove_char CHR ''D'' (py_split ''Building Message M'' line ! 1)) st
      else if contains line ''Received M'' then
        message_number (py_split ''Received M'' line ! 1) st
      else if contains line ''Received WSC_NACK'' then (True, set_status ''WSC_NACK'' st)
      else if contains line ''Enrollee Nonce'' \<and> contains line ''hexdump'' then store_e_nonce line st
      else if contains line ''DH own Public Key'' \<and> contains line ''hexdump'' then store_pkr line st
      else if contains line ''DH peer Public Key'' \<and> contains line ''hexdump'' then store_pke line st
      else if contains line ''AuthKey'' \<and> contains line ''hexdump'' then store_authkey line st
      else if contains line ''E-Hash1'' \<and> contains line ''hexdump'' then store_e_hash1 line st
      else if contains line ''E-Hash2'' \<and> contains line ''hexdump'' then store_e_hash2 line st
      else if contains line ''Network Key'' \<and> contains line ''hexdump'' then store_network_key line st
      else (True, st))"

definition other_line :: "(string \<Rightarrow> string option) \<Rightarrow> string \<Rightarrow> companion \<Rightarrow> bool \<times> companion" where
  \<comment> \<open>the \<^verbatim>\<open>elif\<close> branches of \<^verbatim>\<open>__handle_wpas\<close> for a line that does not start with
      \<^verbatim>\<open>WPS: \<close>. Branches that only print are kept for their place in the chain\<close>
  "other_line decode line st =
     (if contains line '': State: '' then
        (if contains line ''-> SCANNING'' then (True, set_status ''scanning'' st) else (True, st))
      else if contains line ''WPS-FAIL'' \<and> status (conn st) \<noteq> [] then
        (True, set_status ''WPS_FAIL'' st)
      else if contains line ''Trying to authenticate with'' then
        set_essid decode line (set_status ''authenticating'' st)
      else if contains line ''Authentication response'' then (True, st)
      else if contains line ''Trying to associate with'' then
        set_essid decode line (set_status ''associating'' st)
      else if contains line ''Associated with'' \<and> contains line (interface st) then (True, st)
      else if contains line ''EAPOL: txStart'' then (True, set_status ''eapol_start'' st)
      else (True, st))"

definition handle_wpas :: "(string \<Rightarrow> string option) \<Rightarrow> string \<Rightarrow> companion \<Rightarrow> bool \<times> companion" where
  \<comment> \<open>\<^verbatim>\<open>__handle_wpas\<close> on the text \<open>raw\<close> that \<^verbatim>\<open>readline()\<close> returned (empty at
      the end of the stream). The result is the returned flag and the state; an exception
      in the body is caught by the method, which returns \<^verbatim>\<open>False\<close> and keeps the
      assignments made before it\<close>
  "handle_wpas decode raw st =
     (if raw = [] then (False, st)
      else (let line = rstrip_newlines raw
            in if startswith line ''WPS: '' then wps_line line st
               else other_line decode line st))"

fun wps_loop :: "(string \<Rightarrow> string option) \<Rightarrow> string list \<Rightarrow> companion \<Rightarrow> companion" where
  \<comment> \<open>the \<^verbatim>\<open>while True\<close> loop of \<^verbatim>\<open>__wps_connection\<close> over the lines the stream
      delivers; when they are used up the stream is closed and \<^verbatim>\<open>readline()\<close> returns
      the empty text\<close>
  "wps_loop decode [] st = snd (handle_wpas decode [] st)"
| "wps_loop decode (raw # rest) st =
     (case handle_wpas decode raw st of
        (res, st') \<Rightarrow>
          if \<not> res then st'
          else if status (conn st') = ''WSC_NACK'' then st'
          else if status (conn st') = ''GOT_PSK'' then st'
          else if status (conn st') = ''WPS_FAIL'' then st'
          else wps_loop decode rest st')"

definition wps_connection ::
    "(string \<Rightarrow> string option) \<Rightarrow> string \<Rightarrow> string list \<Rightarrow> companion \<Rightarrow> companion" where
  \<comment> \<open>\<^verbatim>\<open>__wps_connection\<close>: \<open>reply\<close> is the answer to \<^verbatim>\<open>WPS_REG\<close>, \<open>lines\<close> the
      trace that follows\<close>
  "wps_connection decode reply lines st =
     (let st1 = st\<lparr>pixie_creds := PixiewpsData, conn := ConnectionStatus\<rparr>
      in if \<not> contains reply ''OK'' then set_status ''WPS_FAIL'' st1
         else wps_loop decode lines st1)"

section \<open>The bruteforce engine\<close>

text \<open>
  The access point and the supplicant are outside the program. One entry of the script
  says what happens during one call of \<^verbatim>\<open>single_connection\<close>. \<open>Attempt f\<close> means that
  for the PIN \<open>pin\<close> the control channel answers \<^verbatim>\<open>WPS_REG\<close> with \<open>fst (f pin)\<close> and the
  trace then delivers the lines \<open>snd (f pin)\<close>. \<open>Interrupt p\<close> means that the operator's
  KeyboardInterrupt arrives before the call has returned: with \<open>p = None\<close> before
  \<^verbatim>\<open>__wps_connection\<close> has cleared the status, with \<open>p = Some f\<close> after it has cleared
  the status, received the answer \<open>fst (f pin)\<close> and handled the lines \<open>snd (f pin)\<close>.
  When the script is used up the program waits for the channel without end, which is
  the result \<open>Blocked\<close>.

  The retry after \<^verbatim>\<open>WPS_FAIL\<close> is a call of the method inside itself, and the program
  does not change the interpreter's limit on the depth of calls (1000 frames). The
  parameter \<open>depth\<close> of the two phases is the number of such nested calls that the
  interpreter still allows; it depends on the frames in use when the phase starts. When
  it is used up the interpreter raises \<^verbatim>\<open>RecursionError\<close>, which no handler of the phase
  catches.
\<close>

datatype event =
    Attempt "string \<Rightarrow> string \<times> string list"
  | Interrupt "(string \<Rightarrow> string \<times> string list) option"

datatype 'a completion = Returned 'a | Raised error | Blocked

definition single_connection ::
    "(string \<Rightarrow> string option) \<Rightarrow> string \<times> string list \<Rightarrow> string \<Rightarrow> companion \<Rightarrow> bool \<times> companion" where
  \<comment> \<open>\<^verbatim>\<open>single_connection(bssid, pin)\<close> as the bruteforce calls it: a non-empty PIN,
      \<^verbatim>\<open>pixiemode\<close> and \<^verbatim>\<open>store_pin_on_fail\<close> off. Printing and saving the credentials
      do not change the modelled state\<close>
  "single_connection decode io pin st =
     (let st' = wps_connection decode (fst io) (snd io) st;
          st'' = st'\<lparr>tried := tried st' @ [pin]\<rparr>
      in (status (conn st'') = ''GOT_PSK'', st''))"

definition interrupted ::
    "(string \<Rightarrow> string option) \<Rightarrow> (string \<Rightarrow> string \<times> string list) option \<Rightarrow> string \<Rightarrow> companion
      \<Rightarrow> companion" where
  \<comment> \<open>the state in which the KeyboardInterrupt leaves \<^verbatim>\<open>single_connection\<close>: the call
      has not returned, so the PIN is not listed in \<open>tried\<close>\<close>
  "interrupted decode p pin st =
     (case p of
        None \<Rightarrow> st
      | Some f \<Rightarrow> wps_connection decode (fst (f pin)) (snd (f pin)) st)"

definition registerAttempt :: "string \<Rightarrow> companion \<Rightarrow> companion" where
  \<comment> \<open>\<^verbatim>\<open>BruteforceStatus.registerAttempt\<close>: the assignment of the mask\<close>
  "registerAttempt m st = st\<lparr>mask := m\<rparr>"

fun first_half_bruteforce ::
    "(string \<Rightarrow> string option) \<Rightarrow> nat \<Rightarrow> event list \<Rightarrow> string \<Rightarrow> companion
      \<Rightarrow> string option completion \<times> companion \<times> event list" where
  \<comment> \<open>\<^verbatim>\<open>__first_half_bruteforce(bssid, f_half)\<close>. The value is the method's result
      (\<^verbatim>\<open>None\<close> for \<^verbatim>\<open>False\<close>), the state, and the rest of the script. One equation
      is one test of the loop condition. The next iteration of the loop is a call of
      the function at the same depth; the retry on \<^verbatim>\<open>WPS_FAIL\<close> is the nested call
      \<^verbatim>\<open>return self.__first_half_bruteforce(bssid, f_half)\<close>, one level deeper\<close>
  "first_half_bruteforce decode depth [] f_half st =
     (case py_int 10 f_half of
        None \<Rightarrow> (Raised ValueError, st, [])
      | Some v \<Rightarrow>
          if v < 10000 then
            (case py_int 10 (f_half @ ''000'') of
               None \<Rightarrow> (Raised ValueError, st, [])
             | Some t \<Rightarrow> (Blocked, st, []))
          else (Returned None, st, []))"
| "first_half_bruteforce decode depth (ev # evs) f_half st =
     (case py_int 10 f_half of
        None \<Rightarrow> (Raised ValueError, st, ev # evs)
      | Some v \<Rightarrow>
          if v < 10000 then
            (case py_int 10 (f_half @ ''000'') of
               None \<Rightarrow> (Raised ValueError, st, ev # evs)
             | Some t \<Rightarrow>
                 (let pin = f_half @ ''000'' @ py_str (checksum t) in
                  case ev of
                    Interrupt p \<Rightarrow> (Raised KeyboardInterrupt, interrupted decode p pin st, evs)
                  | Attempt f \<Rightarrow>
                      (let st1 = snd (single_connection decode (f pin) pin st) in
                       if isFirstHalfValid (conn st1) then (Returned (Some f_half), st1, evs)
                       else if status (conn st1) = ''WPS_FAIL''
                       then (case depth of
                               0 \<Rightarrow> (Raised RecursionError, st1, evs)
                             | Suc d \<Rightarrow> first_half_bruteforce decode d evs f_half st1)
                       else (let f_half' = py_zfill 4 (py_str (v + 1))
                             in first_half_bruteforce decode depth evs f_half'
                                  (registerAttempt f_half' st1)))))
          else (Returned None, st, ev # evs))"

fun second_half_bruteforce ::
    "(string \<Rightarrow> string option) \<Rightarrow> nat \<Rightarrow> event list \<Rightarrow> string \<Rightarrow> string \<Rightarrow> companion
      \<Rightarrow> string option completion \<times> companion \<times> event list" where
  \<comment> \<open>\<^verbatim>\<open>__second_half_bruteforce(bssid, f_half, s_half)\<close>\<close>
  "second_half_bruteforce decode depth [] f_half s_half st =
     (case py_int 10 s_half of
        None \<Rightarrow> (Raised ValueError, st, [])
      | Some v \<Rightarrow>
          if v < 1000 then
            (case py_int 10 (f_half @ s_half) of
               None \<Rightarrow> (Raised ValueError, st, [])
             | Some t \<Rightarrow> (Blocked, st, []))
          else (Returned None, st, []))"
| "second_half_bruteforce decode depth (ev # evs) f_half s_half st =
     (case py_int 10 s_half of
        None \<Rightarrow> (Raised ValueError, st, ev # evs)
      | Some v \<Rightarrow>
          if v < 1000 then
            (case py_int 10 (f_half @ s_half) of
               None \<Rightarrow> (Raised ValueError, st, ev # evs)
             | Some t \<Rightarrow>
                 (let pin = f_half @ s_half @ py_str (checksum t) in
                  case ev of
                    Interrupt p \<Rightarrow> (Raised KeyboardInterrupt, interrupted decode p pin st, evs)
                  | Attempt f \<Rightarrow>
                      (let st1 = snd (single_connection decode (f pin) pin st) in
                       if 6 < last_m_message (conn st1) then (Returned (Some pin), st1, evs)
                       else if status (conn st1) = ''WPS_FAIL''
                       then (case depth of
                               0 \<Rightarrow> (Raised RecursionError, st1, evs)
                             | Suc d \<Rightarrow> second_half_bruteforce decode d evs f_half s_half st1)
                       else (let s_half' = py_zfill 3 (py_str (v + 1))
                             in second_half_bruteforce decode depth evs f_half s_half'
                                  (registerAttempt (f_half @ s_half') st1)))))
          else (Returned None, st, ev # evs))"

definition first_line :: "string \<Rightarrow> string" where
  \<comment> \<open>\<^verbatim>\<open>file.readline()\<close> without the line end\<close>
  "first_line content = takeWhile (\<lambda>c. c \<noteq> CHR 0x0A \<and> c \<noteq> CHR 0x0D) content"

definition choose_mask :: "string \<Rightarrow> bool \<Rightarrow> companion \<Rightarrow> string" where
  \<comment> \<open>the start of \<^verbatim>\<open>smart_bruteforce\<close>: \<open>start_pin\<close> is empty when none is given,
      \<open>restore\<close> says that the operator did not answer \<^verbatim>\<open>n\<close> to the question\<close>
  "choose_mask start_pin restore st =
     (if start_pin = [] \<or> length start_pin < 4
      then (case session st of
              Some content \<Rightarrow> if restore then py_strip (first_line content) else ''0000''
            | None \<Rightarrow> ''0000'')
      else take 7 start_pin)"

definition save_session :: "bool \<Rightarrow> companion \<times> event list \<Rightarrow> unit completion \<times> companion \<times> event list" where
  \<comment> \<open>the handler \<^verbatim>\<open>except KeyboardInterrupt\<close>: the mask is written to the session
      file; in loop mode the interrupt is raised again\<close>
  "save_session loop r =
     (case r of (st, evs) \<Rightarrow>
        (if loop then Raised KeyboardInterrupt else Returned (), st\<lparr>session := Some (mask st)\<rparr>, evs))"

definition after_phase ::
    "bool \<Rightarrow> string option completion \<times> companion \<times> event list
      \<Rightarrow> unit completion \<times> companion \<times> event list" where
  \<comment> \<open>what \<^verbatim>\<open>smart_bruteforce\<close> does when a phase is over: a returned phase is followed
      by \<^verbatim>\<open>raise KeyboardInterrupt\<close>, so it and an interrupted phase end in the handler
      that saves the session; another exception (\<^verbatim>\<open>ValueError\<close>, \<^verbatim>\<open>RecursionError\<close>) is
      logged by the outer handler \<^verbatim>\<open>except Exception\<close> and the method returns without
      having written the session file\<close>
  "after_phase loop r =
     (case r of
        (Returned x, st, evs) \<Rightarrow> save_session loop (st, evs)
      | (Raised KeyboardInterrupt, st, evs) \<Rightarrow> save_session loop (st, evs)
      | (Raised e, st, evs) \<Rightarrow> (Returned (), st, evs)
      | (Blocked, st, evs) \<Rightarrow> (Blocked, st, evs))"

definition smart_bruteforce ::
    "(string \<Rightarrow> string option) \<Rightarrow> nat \<Rightarrow> bool \<Rightarrow> event list \<Rightarrow> string \<Rightarrow> bool \<Rightarrow> companion
      \<Rightarrow> unit completion \<times> companion \<times> event list" where
  \<comment> \<open>\<^verbatim>\<open>smart_bruteforce(bssid, start_pin)\<close>; \<open>loop\<close> is \<^verbatim>\<open>args.loop\<close>. Each phase is
      called from this method, so each starts with the same \<open>depth\<close>\<close>
  "smart_bruteforce decode depth loop evs start_pin restore st =
     (let mask0 = choose_mask start_pin restore st;
          st0 = st\<lparr>mask := mask0\<rparr>
      in if length mask0 = 4 then
           (case first_half_bruteforce decode depth evs mask0 st0 of
              (Returned (Some f_half), st1, evs1) \<Rightarrow>
                if f_half \<noteq> [] \<and> status (conn st1) \<noteq> ''GOT_PSK''
                then after_phase loop (second_half_bruteforce decode depth evs1 f_half ''001'' st1)
                else save_session loop (st1, evs1)
            | r \<Rightarrow> after_phase loop r)
         else if length mask0 = 7 then
           after_phase loop (second_half_bruteforce decode depth evs (take 4 mask0) (drop 4 mask0) st0)
         else save_session loop (st0, evs))"

section \<open>Auxiliary predicates for the proofs\<close>

definition digit_in :: "int \<Rightarrow> char \<Rightarrow> bool" where
  \<comment> \<open>the character is a digit of the base\<close>
  "digit_in b c = (case digit_value c of None \<Rightarrow> False | Some d \<Rightarrow> int d < b)"

definition checksum_spec :: "int \<Rightarrow> int" where
  \<comment> \<open>the checksum as the specification words it, for a 7-digit number: three times the
      units digit plus the tens digit, accumulated over the digit pairs, then
      \<^verbatim>\<open>(10 - sum mod 10) mod 10\<close>\<close>
  "checksum_spec p =
     (10 - (3 * (p mod 10) + p div 10 mod 10
            + 3 * (p div 100 mod 10) + p div 1000 mod 10
            + 3 * (p div 10000 mod 10) + p div 100000 mod 10
            + 3 * (p div 1000000 mod 10)) mod 10) mod 10"

definition newline :: string where
  \<comment> \<open>the line end with which \<^verbatim>\<open>readline()\<close> returns a line\<close>
  "newline = [CHR 0x0A]"

definition trace_line :: "string \<Rightarrow> string" where
  \<comment> \<open>a line of the trace as \<^verbatim>\<open>readline()\<close> returns it\<close>
  "trace_line text = text @ newline"

definition lengths_ok :: "pixiewps_data \<Rightarrow> bool" where
  \<comment> \<open>every field is empty or has the number of hexadecimal characters the assertions of
      \<^verbatim>\<open>__handle_wpas\<close> ask for\<close>
  "lengths_ok p =
     ((e_nonce p = [] \<or> length (e_nonce p) = 16 * 2) \<and>
      (pkr p = [] \<or> length (pkr p) = 192 * 2) \<and>
      (pke p = [] \<or> length (pke p) = 192 * 2) \<and>
      (authkey p = [] \<or> length (authkey p) = 32 * 2) \<and>
      (e_hash1 p = [] \<or> length (e_hash1 p) = 32 * 2) \<and>
      (e_hash2 p = [] \<or> length (e_hash2 p) = 32 * 2))"

fun feed_all :: "(string \<Rightarrow> string option) \<Rightarrow> string list \<Rightarrow> companion \<Rightarrow> bool \<times> companion" where
  \<comment> \<open>\<^verbatim>\<open>__handle_wpas\<close> on one line after the other for as long as it returns
      \<^verbatim>\<open>True\<close>; the flag says that it did for every line\<close>
  "feed_all decode [] st = (True, st)"
| "feed_all decode (raw # rest) st =
     (case handle_wpas decode raw st of
        (res, st') \<Rightarrow> if res then feed_all decode rest st' else (False, st'))"

definition idle :: companion where
  \<comment> \<open>a freshly initialised \<^verbatim>\<open>EnhancedCompanion\<close> on the interface \<^verbatim>\<open>wlan0\<close>, no session file\<close>
  "idle = \<lparr>interface = ''wlan0'', pixie_creds = PixiewpsData, conn = ConnectionStatus,
            mask = [], tried = [], session = None\<rparr>"

definition zero_bytes :: "nat \<Rightarrow> string" where
  \<comment> \<open>the dump of \<open>n\<close> zero bytes\<close>
  "zero_bytes n = concat (replicate n '' 00'')"

definition hexdump_text :: "string \<Rightarrow> nat \<Rightarrow> string" where
  \<comment> \<open>the supplicant's dump of a value of \<open>n\<close> zero bytes under the label\<close>
  "hexdump_text label n =
     ''WPS: '' @ label @ '' - hexdump(len='' @ py_str (int n) @ ''):'' @ zero_bytes n"

definition hexdump_line :: "string \<Rightarrow> nat \<Rightarrow> string" where
  \<comment> \<open>that dump as \<^verbatim>\<open>readline()\<close> returns it\<close>
  "hexdump_line label n = hexdump_text label n @ newline"

definition complete_trace :: "string list" where
  \<comment> \<open>the six values of a handshake, each of its mandated length\<close>
  "complete_trace =
     [hexdump_line ''Enrollee Nonce'' 16, hexdump_line ''DH peer Public Key'' 192,
      hexdump_line ''DH own Public Key'' 192, hexdump_line ''AuthKey'' 32,
      hexdump_line ''E-Hash1'' 32, hexdump_line ''E-Hash2'' 32]"

definition non_hex_dump :: string where
  \<comment> \<open>a dump line of 32 groups that are not hexadecimal digits\<close>
  "non_hex_dump = trace_line (''WPS: E-Hash2 - hexdump(len=32):'' @ concat (replicate 32 '' ZZ''))"

definition keeps_lengths :: "companion \<Rightarrow> bool \<times> companion \<Rightarrow> bool" where
  \<comment> \<open>a step that returns \<^verbatim>\<open>True\<close> keeps \<open>lengths_ok\<close>\<close>
  "keeps_lengths st r = (lengths_ok (pixie_creds st) \<and> fst r \<longrightarrow> lengths_ok (pixie_creds (snd r)))"

definition outcome :: "(string \<Rightarrow> string option) \<Rightarrow> companion \<Rightarrow> string \<times> string list \<Rightarrow> connection_status" where
  \<comment> \<open>the connection status with which an attempt ends\<close>
  "outcome decode st io = conn (wps_connection decode (fst io) (snd io) st)"

definition f_half_of :: "int \<Rightarrow> string" where
  \<comment> \<open>the first-half candidate \<open>k\<close> as the loop writes it: \<^verbatim>\<open>str(k).zfill(4)\<close>\<close>
  "f_half_of k = py_zfill 4 (py_str k)"

definition s_half_of :: "int \<Rightarrow> string" where
  \<comment> \<open>the second-half candidate \<open>j\<close>: \<^verbatim>\<open>str(j).zfill(3)\<close>\<close>
  "s_half_of j = py_zfill 3 (py_str j)"

definition first_half_pin :: "int \<Rightarrow> string" where
  \<comment> \<open>first half, \<^verbatim>\<open>000\<close>, and the checksum of first half times 1000\<close>
  "first_half_pin k = f_half_of k @ ''000'' @ py_str (checksum (k * 1000))"

definition second_half_pin :: "int \<Rightarrow> int \<Rightarrow> string" where
  \<comment> \<open>first half, second half, and the checksum of the two read as one 7-digit number\<close>
  "second_half_pin k j = f_half_of k @ s_half_of j @ py_str (checksum (k * 1000 + j))"

definition dec_value :: "string \<Rightarrow> int" where
  \<comment> \<open>the value of a text of decimal digits\<close>
  "dec_value s = foldl (\<lambda>a c. a * 10 + int (the (digit_value c))) 0 s"

definition same_frame :: "companion \<Rightarrow> companion \<Rightarrow> bool" where
  \<comment> \<open>the two states agree on what the classifier never writes\<close>
  "same_frame st st' =
     (interface st' = interface st \<and> mask st' = mask st \<and> tried st' = tried st
      \<and> session st' = session st)"

definition rejects1 :: "(string \<Rightarrow> string option) \<Rightarrow> (string \<Rightarrow> string \<times> string list) \<Rightarrow> int \<Rightarrow> bool" where
  \<comment> \<open>the attempt on first-half candidate \<open>k\<close> ends without first-half validity and
      without \<^verbatim>\<open>WPS_FAIL\<close>\<close>
  "rejects1 decode f k =
     (\<forall>st. \<not> isFirstHalfValid (outcome decode st (f (first_half_pin k)))
           \<and> status (outcome decode st (f (first_half_pin k))) \<noteq> ''WPS_FAIL'')"

definition fails1 :: "(string \<Rightarrow> string option) \<Rightarrow> (string \<Rightarrow> string \<times> string list) \<Rightarrow> int \<Rightarrow> bool" where
  \<comment> \<open>the attempt on first-half candidate \<open>k\<close> ends with \<^verbatim>\<open>WPS_FAIL\<close> and without
      first-half validity\<close>
  "fails1 decode f k =
     (\<forall>st. \<not> isFirstHalfValid (outcome decode st (f (first_half_pin k)))
           \<and> status (outcome decode st (f (first_half_pin k))) = ''WPS_FAIL'')"

definition accepts1 :: "(string \<Rightarrow> string option) \<Rightarrow> (string \<Rightarrow> string \<times> string list) \<Rightarrow> int \<Rightarrow> bool" where
  \<comment> \<open>the attempt on first-half candidate \<open>k\<close> ends with first-half validity and without
      the passphrase\<close>
  "accepts1 decode f k =
     (\<forall>st. isFirstHalfValid (outcome decode st (f (first_half_pin k)))
           \<and> status (outcome decode st (f (first_half_pin k))) \<noteq> ''GOT_PSK'')"

definition rejects2 ::
    "(string \<Rightarrow> string option) \<Rightarrow> (string \<Rightarrow> string \<times> string list) \<Rightarrow> int \<Rightarrow> int \<Rightarrow> bool" where
  \<comment> \<open>the attempt on second-half candidate \<open>j\<close> ends with a last message number of at
      most 6 and without \<^verbatim>\<open>WPS_FAIL\<close>\<close>
  "rejects2 decode f k j =
     (\<forall>st. last_m_message (outcome decode st (f (second_half_pin k j))) \<le> 6
           \<and> status (outcome decode st (f (second_half_pin k j))) \<noteq> ''WPS_FAIL'')"

definition fails2 ::
    "(string \<Rightarrow> string option) \<Rightarrow> (string \<Rightarrow> string \<times> string list) \<Rightarrow> int \<Rightarrow> int \<Rightarrow> bool" where
  "fails2 decode f k j =
     (\<forall>st. last_m_message (outcome decode st (f (second_half_pin k j))) \<le> 6
           \<and> status (outcome decode st (f (second_half_pin k j))) = ''WPS_FAIL'')"

definition accepts2 ::
    "(string \<Rightarrow> string option) \<Rightarrow> (string \<Rightarrow> string \<times> string list) \<Rightarrow> int \<Rightarrow> int \<Rightarrow> bool" where
  "accepts2 decode f k j =
     (\<forall>st. 6 < last_m_message (outcome decode st (f (second_half_pin k j))))"

definition rejected_trace :: "string list" where
  \<comment> \<open>the trace of an attempt whose first half is wrong\<close>
  "rejected_trace =
     [trace_line ''WPS: Building Message M2'', trace_line ''WPS: Received M3'',
      trace_line ''WPS: Building Message M4'', trace_line ''WPS: Received WSC_NACK'']"

definition half_valid_trace :: "string list" where
  \<comment> \<open>the trace of an attempt whose first half is right and whose second half is wrong\<close>
  "half_valid_trace =
     [trace_line ''WPS: Building Message M2'', trace_line ''WPS: Received M3'',
      trace_line ''WPS: Building Message M4'', trace_line ''WPS: Received M5'',
      trace_line ''WPS: Building Message M6'', trace_line ''WPS: Received WSC_NACK'']"

definition accepted_trace :: "string list" where
  \<comment> \<open>the trace of an attempt with the right PIN\<close>
  "accepted_trace =
     [trace_line ''WPS: Building Message M2'', trace_line ''WPS: Received M3'',
      trace_line ''WPS: Building Message M4'', trace_line ''WPS: Received M5'',
      trace_line ''WPS: Building Message M6'', trace_line ''WPS: Received M7'',
      trace_line ''WPS: Network Key - hexdump(len=3): 41 42 43'']"

definition simulated_channel :: "string \<Rightarrow> string \<Rightarrow> string \<times> string list" where
  \<comment> \<open>a simulated access point whose PIN is \<open>target\<close>\<close>
  "simulated_channel target pin =
     (''OK'',
      if take 4 pin = take 4 target
      then (if pin = target then accepted_trace else half_valid_trace)
      else rejected_trace)"

definition failing_channel :: "string \<Rightarrow> string \<times> string list" where
  \<comment> \<open>the control channel does not accept the request, which sets \<^verbatim>\<open>WPS_FAIL\<close>\<close>
  "failing_channel pin = (''FAIL'', [])"

definition key_only_channel :: "string \<Rightarrow> string \<times> string list" where
  \<comment> \<open>a trace that dumps a network key without any message number\<close>
  "key_only_channel pin = (''OK'', [trace_line ''WPS: Network Key - hexdump(len=3): 41 42 43''])"

section \<open>Digits: rendering and parsing\<close>

lemma digit_value_digit_char: "d < 16 \<Longrightarrow> digit_value (digit_char d) = Some d"
  by (simp add: digit_value_def digit_char_def Let_def)

lemma digit_value_upper_digit_char: "d < 16 \<Longrightarrow> digit_value (upper_char (digit_char d)) = Some d"
  by (simp add: digit_value_def digit_char_def upper_char_def Let_def)

lemma whitespace_no_digit: "digit_value c = Some d \<Longrightarrow> \<not> py_whitespace c"
  by (auto simp: digit_value_def py_whitespace_def Let_def split: if_splits)

lemma py_digits_single: "digit_value c = Some d \<Longrightarrow> int d < b \<Longrightarrow> py_digits b acc [c] = Some (acc * b + int d)"
  by simp

lemma digit_not_underscore: "digit_value c = Some d \<Longrightarrow> c \<noteq> CHR ''_''"
  by (auto simp: digit_value_def Let_def split: if_splits)

lemma py_digits_snoc:
  "s \<noteq> [] \<Longrightarrow> \<forall>c\<in>set s. digit_in b c \<Longrightarrow> digit_value c0 = Some d \<Longrightarrow> int d < b \<Longrightarrow>
   py_digits b acc (s @ [c0]) = map_option (\<lambda>v. v * b + int d) (py_digits b acc s)"
proof (induction s arbitrary: acc)
  case Nil
  then show ?case by simp
next
  case (Cons a s)
  from Cons.prems obtain da where da: "digit_value a = Some da" "int da < b"
    by (auto simp: digit_in_def split: option.splits)
  show ?case
  proof (cases s)
    case Nil
    with da Cons.prems show ?thesis
      by (simp add: digit_not_underscore)
  next
    case (Cons a' s')
    from Cons.prems(2) Cons obtain d' where d': "digit_value a' = Some d'"
      by (auto simp: digit_in_def split: option.splits)
    have nz: "s \<noteq> []" using Cons by simp
    have "py_digits b (acc * b + int da) (s @ [c0]) =
          map_option (\<lambda>v. v * b + int d) (py_digits b (acc * b + int da) s)"
      using Cons.IH[OF nz] Cons.prems by simp
    with da d' Cons show ?thesis
      by (simp add: digit_not_underscore)
  qed
qed

lemma digits_of_nonempty: "digits_of b n \<noteq> []"
  by (subst digits_of.simps) simp

lemma digits_of_small: "n < b \<Longrightarrow> digits_of b n = [digit_char (nat n)]"
  by (subst digits_of.simps) simp

lemma digits_of_step: "2 \<le> b \<Longrightarrow> b \<le> n \<Longrightarrow> digits_of b n = digits_of b (n div b) @ [digit_char (nat (n mod b))]"
  by (subst digits_of.simps) simp

lemma digits_of_digit_in:
  assumes f: "\<And>d. d < 16 \<Longrightarrow> digit_value (f (digit_char d)) = Some d"
  shows "2 \<le> b \<Longrightarrow> b \<le> 16 \<Longrightarrow> 0 \<le> n \<Longrightarrow> \<forall>c\<in>set (map f (digits_of b n)). digit_in b c"
proof (induction b n rule: digits_of.induct)
  case (1 b n)
  show ?case
  proof (cases "n < b")
    case True
    with 1 have "nat n < 16" by simp
    with True 1 show ?thesis
      by (simp add: digits_of_small digit_in_def f)
  next
    case False
    have r: "0 \<le> n mod b" "n mod b < b" using 1 by simp_all
    then have m: "nat (n mod b) < 16" "int (nat (n mod b)) < b"
      using "1.prems" by arith+
    have dv: "digit_value (f (digit_char (nat (n mod b)))) = Some (nat (n mod b))"
      using f m(1) by blast
    have "0 \<le> n div b" using 1 by (simp add: pos_imp_zdiv_nonneg_iff)
    with False 1 have IH: "\<forall>c\<in>set (map f (digits_of b (n div b))). digit_in b c" by simp
    have st: "digits_of b n = digits_of b (n div b) @ [digit_char (nat (n mod b))]"
      using False 1 by (simp add: digits_of_step)
    show ?thesis
      unfolding st using IH dv m(2) by (simp add: digit_in_def)
  qed
qed


lemma py_digits_digits_of:
  assumes f: "\<And>d. d < 16 \<Longrightarrow> digit_value (f (digit_char d)) = Some d"
  shows "2 \<le> b \<Longrightarrow> b \<le> 16 \<Longrightarrow> 0 \<le> n \<Longrightarrow> py_digits b 0 (map f (digits_of b n)) = Some n"
proof (induction b n rule: digits_of.induct)
  case (1 b n)
  show ?case
  proof (cases "n < b")
    case True
    with 1 have "nat n < 16" by simp
    then have "digit_value (f (digit_char (nat n))) = Some (nat n)" using f by blast
    with True 1 show ?thesis
      by (simp add: digits_of_small)
  next
    case False
    have r: "0 \<le> n mod b" "n mod b < b" using 1 by simp_all
    then have m: "nat (n mod b) < 16" "int (nat (n mod b)) < b"
      using "1.prems" by arith+
    have dv: "digit_value (f (digit_char (nat (n mod b)))) = Some (nat (n mod b))"
      using f m(1) by blast
    have nn: "0 \<le> n div b" using 1 by (simp add: pos_imp_zdiv_nonneg_iff)
    with False 1 have IH: "py_digits b 0 (map f (digits_of b (n div b))) = Some (n div b)" by simp
    have st: "digits_of b n = digits_of b (n div b) @ [digit_char (nat (n mod b))]"
      using False 1 by (simp add: digits_of_step)
    have all: "\<forall>c\<in>set (map f (digits_of b (n div b))). digit_in b c"
      using digits_of_digit_in[OF f] 1 nn by blast
    have ne: "map f (digits_of b (n div b)) \<noteq> []" by (simp add: digits_of_nonempty)
    have "py_digits b 0 (map f (digits_of b (n div b)) @ [f (digit_char (nat (n mod b)))])
            = map_option (\<lambda>v. v * b + int (nat (n mod b))) (py_digits b 0 (map f (digits_of b (n div b))))"
      by (rule py_digits_snoc[OF ne all dv m(2)])
    then show ?thesis
      unfolding st using IH r by (simp add: mult.commute)
  qed
qed

lemma int_div_less:
  fixes b n q :: int
  assumes bp: "0 < b" and lt: "n < q * b"
  shows "n div b < q"
proof (rule ccontr)
  assume "\<not> n div b < q"
  then have "q \<le> n div b" by simp
  then have "q * b \<le> (n div b) * b" using bp by (simp add: mult_right_mono)
  moreover have "(n div b) * b \<le> n"
    using div_mult_mod_eq[of n b] pos_mod_sign[OF bp, of n] by linarith
  ultimately show False using lt by linarith
qed

lemma length_digits_of:
  "2 \<le> b \<Longrightarrow> b ^ k \<le> n \<Longrightarrow> n < b ^ Suc k \<Longrightarrow> length (digits_of b n) = Suc k"
proof (induction k arbitrary: n)
  case 0
  then show ?case by (simp add: digits_of_small)
next
  case (Suc k)
  have bn: "b \<le> n"
  proof -
    have "b \<le> b ^ Suc k" using Suc.prems(1) by (intro self_le_power) simp_all
    then show ?thesis using Suc.prems(2) by (rule order_trans)
  qed
  have lo: "b ^ k \<le> n div b"
  proof -
    have "b ^ k * b \<le> n" using Suc.prems by (simp add: mult.commute)
    then have "(b ^ k * b) div b \<le> n div b" by (rule zdiv_mono1) (use Suc.prems in simp)
    with Suc.prems show ?thesis by simp
  qed
  have hi: "n div b < b ^ Suc k"
  proof -
    have bp: "0 < b" using Suc.prems(1) by simp
    have "n < b ^ Suc k * b" using Suc.prems by (simp add: mult.commute)
    then show ?thesis by (rule int_div_less[OF bp])
  qed
  from Suc.IH[OF Suc.prems(1) lo hi] bn Suc.prems(1) show ?case
    by (simp add: digits_of_step)
qed

section \<open>Text helpers: strip, split, join\<close>


lemma int_space_whitespace: "int_space c \<Longrightarrow> py_whitespace c"
  by (auto simp: int_space_def py_whitespace_def Let_def)

lemma int_strip_id:
  "s \<noteq> [] \<Longrightarrow> \<not> py_whitespace (hd s) \<Longrightarrow> \<not> py_whitespace (last s) \<Longrightarrow> int_strip s = s"
proof -
  assume ne: "s \<noteq> []" and h: "\<not> py_whitespace (hd s)" and l: "\<not> py_whitespace (last s)"
  from ne h have a: "dropWhile int_space s = s" by (cases s) (auto dest: int_space_whitespace)
  from ne l have b: "dropWhile int_space (rev s) = rev s"
    by (cases "rev s") (auto simp: last_rev[symmetric] hd_rev dest: int_space_whitespace)
  show ?thesis by (simp add: int_strip_def a b)
qed

lemma digit_in_not_whitespace: "digit_in b c \<Longrightarrow> \<not> py_whitespace c"
  by (auto simp: digit_in_def split: option.splits dest: whitespace_no_digit)

lemma digit_in_not_special:
  "digit_in b c \<Longrightarrow> c \<noteq> CHR ''-'' \<and> c \<noteq> CHR ''+'' \<and> c \<noteq> CHR ''x'' \<and> c \<noteq> CHR ''X'' \<and> c \<noteq> CHR '':''"
  by (auto simp: digit_in_def digit_value_def Let_def split: option.splits if_splits)

lemma startswith_second: "startswith s [a, b] \<Longrightarrow> b \<in> set s"
  by (cases s; cases "tl s") auto

lemma py_int_digits:
  assumes ne: "s \<noteq> []" and all: "\<forall>c\<in>set s. digit_in b c"
  shows "py_int b s = py_digits b 0 s"
proof -
  have hd: "digit_in b (hd s)" and la: "digit_in b (last s)" using ne all by simp_all
  have st: "int_strip s = s"
    using ne hd la by (intro int_strip_id) (simp_all add: digit_in_not_whitespace)
  have sg: "hd s \<noteq> CHR ''-''" "hd s \<noteq> CHR ''+''" using digit_in_not_special[OF hd] by simp_all
  have nx: "\<not> startswith s ''0x''" "\<not> startswith s ''0X''"
    using all digit_in_not_special by (auto dest!: startswith_second)
  show ?thesis
    by (simp add: py_int_def st sg nx Let_def option.map_ident)
qed

lemma split_acc_no_sep:
  "c \<notin> set s \<Longrightarrow> split_acc [c] lim acc s = [rev acc @ s]"
  by (induction s arbitrary: acc) auto

lemma py_split_hex:
  "CHR ''x'' \<notin> set ds \<Longrightarrow> p = [] \<or> p = ''-'' \<Longrightarrow> last (py_split ''x'' (p @ ''0x'' @ ds)) = ds"
  by (auto simp: py_split_def split_acc_no_sep)


lemma chunks_concat:
  "take 2 s @ take 2 (drop 2 s) @ take 2 (drop 4 s) @ take 2 (drop 6 s) @ take 2 (drop 8 s)
     @ take 2 (drop 10 s) = take 12 s"
proof -
  have "take 12 s = take 2 s @ take 10 (drop 2 s)" using take_add[of 2 10 s] by simp
  also have "take 10 (drop 2 s) = take 2 (drop 2 s) @ take 8 (drop 4 s)"
    using take_add[of 2 8 "drop 2 s"] by simp
  also have "take 8 (drop 4 s) = take 2 (drop 4 s) @ take 6 (drop 6 s)"
    using take_add[of 2 6 "drop 4 s"] by simp
  also have "take 6 (drop 6 s) = take 2 (drop 6 s) @ take 4 (drop 8 s)"
    using take_add[of 2 4 "drop 6 s"] by simp
  also have "take 4 (drop 8 s) = take 2 (drop 8 s) @ take 2 (drop 10 s)"
    using take_add[of 2 2 "drop 8 s"] by simp
  finally show ?thesis by simp
qed

lemma remove_char_id: "c \<notin> set s \<Longrightarrow> remove_char c s = s"
  by (auto simp: remove_char_def filter_id_conv)

lemma remove_char_chunk: "c \<notin> set s \<Longrightarrow> remove_char c (take n (drop i s)) = take n (drop i s)"
  by (rule remove_char_id) (meson in_set_dropD in_set_takeD)

lemma remove_char_append: "remove_char c (s @ t) = remove_char c s @ remove_char c t"
  by (simp add: remove_char_def)

lemma remove_colon_join:
  assumes "CHR '':'' \<notin> set s"
  shows "remove_char CHR '':'' (py_join '':'' (map (\<lambda>i. take 2 (drop i s)) [0, 2, 4, 6, 8, 10]))
           = take 12 s"
proof -
  have c: "\<And>n i. remove_char CHR '':'' (take n (drop i s)) = take n (drop i s)"
    using assms by (rule remove_char_chunk)
  have e: "remove_char CHR '':'' '':'' = []" by (simp add: remove_char_def)
  have "remove_char CHR '':'' (py_join '':'' (map (\<lambda>i. take 2 (drop i s)) [0, 2, 4, 6, 8, 10]))
        = take 2 (drop 0 s) @ take 2 (drop 2 s) @ take 2 (drop 4 s) @ take 2 (drop 6 s)
            @ take 2 (drop 8 s) @ take 2 (drop 10 s)"
    by (simp only: list.map py_join.simps remove_char_append c e append_Nil)
  then show ?thesis using chunks_concat[of s] by simp
qed

lemma upper_digits_digit_in:
  "0 \<le> n \<Longrightarrow> \<forall>c\<in>set (py_upper (digits_of 16 n)). digit_in 16 c"
  unfolding py_upper_def
  by (rule digits_of_digit_in[where f = upper_char]) (simp_all add: digit_value_upper_digit_char)

lemma mac2int_upper_digits:
  "0 \<le> n \<Longrightarrow> mac2int (py_upper (digits_of 16 n)) = Inr n"
proof -
  assume n: "0 \<le> n"
  let ?s = "py_upper (digits_of 16 n)"
  have all: "\<forall>c\<in>set ?s. digit_in 16 c" using n by (rule upper_digits_digit_in)
  have ne: "?s \<noteq> []" by (simp add: py_upper_def digits_of_nonempty)
  have nc: "CHR '':'' \<notin> set ?s" using all digit_in_not_special by blast
  have "py_digits 16 0 ?s = Some n"
    unfolding py_upper_def
    by (rule py_digits_digits_of[where f = upper_char]) (simp_all add: digit_value_upper_digit_char n)
  then show ?thesis
    by (simp add: mac2int_def remove_char_id[OF nc] py_int_digits[OF ne all])
qed


lemma digits_digit_in:
  "0 \<le> n \<Longrightarrow> \<forall>c\<in>set (digits_of 16 n). digit_in 16 c"
  using digits_of_digit_in[where f = "\<lambda>c. c" and b = 16 and n = n]
  by (simp add: digit_value_digit_char)

lemma mac2int_cong:
  "remove_char CHR '':'' s = remove_char CHR '':'' t \<Longrightarrow> mac2int s = mac2int t"
  by (simp add: mac2int_def)

lemma int2mac_nonneg:
  assumes "0 \<le> m"
  shows "int2mac m = py_join '':'' (map (\<lambda>i. take 2 (drop i (py_zfill 12 (py_upper (digits_of 16 m)))))
                        [0, 2, 4, 6, 8, 10])"
proof -
  have "CHR ''x'' \<notin> set (digits_of 16 m)"
    using digits_digit_in[OF assms] digit_in_not_special by blast
  then have "last (py_split ''x'' ([] @ ''0x'' @ digits_of 16 m)) = digits_of 16 m"
    by (rule py_split_hex) simp
  then show ?thesis using assms by (simp add: int2mac_def py_hex_def Let_def)
qed

section \<open>The classifier on hexdump lines\<close>

lemma set_essid_pixie: "pixie_creds (snd (set_essid decode line st)) = pixie_creds st"
  by (simp add: set_essid_def split: option.splits)

lemma set_status_pixie: "pixie_creds (set_status v st) = pixie_creds st"
  by (simp add: set_status_def)

lemma set_last_m_pixie: "pixie_creds (set_last_m v st) = pixie_creds st"
  by (simp add: set_last_m_def)

lemma message_number_pixie: "pixie_creds (snd (message_number text st)) = pixie_creds st"
  by (simp add: message_number_def set_last_m_pixie split: option.splits)

lemma store_network_key_pixie: "pixie_creds (snd (store_network_key line st)) = pixie_creds st"
  by (simp add: store_network_key_def set_status_def Let_def split: option.splits)

lemma keeps_same: "pixie_creds (snd r) = pixie_creds st \<Longrightarrow> keeps_lengths st r"
  by (simp add: keeps_lengths_def)

lemma keeps_store:
  "keeps_lengths st (store_e_nonce line st)" "keeps_lengths st (store_pkr line st)"
  "keeps_lengths st (store_pke line st)" "keeps_lengths st (store_authkey line st)"
  "keeps_lengths st (store_e_hash1 line st)" "keeps_lengths st (store_e_hash2 line st)"
  by (simp_all add: keeps_lengths_def lengths_ok_def store_e_nonce_def store_pkr_def store_pke_def
      store_authkey_def store_e_hash1_def store_e_hash2_def Let_def)

lemma wps_line_keeps: "keeps_lengths st (wps_line line st)"
  unfolding wps_line_def
  by (simp add: keeps_store keeps_same message_number_pixie store_network_key_pixie set_status_pixie)

lemma other_line_keeps: "keeps_lengths st (other_line decode line st)"
  unfolding other_line_def
  by (simp add: keeps_same set_essid_pixie set_status_pixie)

lemma handle_wpas_keeps: "keeps_lengths st (handle_wpas decode raw st)"
  unfolding handle_wpas_def
  by (simp add: wps_line_keeps other_line_keeps keeps_same Let_def)



lemma startswith_subset: "startswith s pat \<Longrightarrow> set pat \<subseteq> set s"
  by (induction s pat rule: startswith.induct) auto

lemma contains_subset: "contains s pat \<Longrightarrow> set pat \<subseteq> set s"
proof (induction s)
  case Nil
  then show ?case by simp
next
  case (Cons a s)
  from Cons.prems have "startswith (a # s) pat \<or> contains s pat" by simp
  then show ?case
  proof
    assume "startswith (a # s) pat"
    then show ?thesis by (rule startswith_subset)
  next
    assume "contains s pat"
    then have "set pat \<subseteq> set s" by (rule Cons.IH)
    then show ?thesis by auto
  qed
qed

lemma not_contains: "c \<in> set pat \<Longrightarrow> c \<notin> set s \<Longrightarrow> contains s pat = False"
  using contains_subset by blast

lemma startswith_append: "startswith xs pat \<Longrightarrow> startswith (xs @ ys) pat"
  by (induction xs pat rule: startswith.induct) auto

lemma contains_append_left: "contains xs pat \<Longrightarrow> contains (xs @ ys) pat"
proof (induction xs)
  case Nil
  then show ?case by (cases ys) auto
next
  case (Cons a xs)
  then show ?case using startswith_append[of "a # xs" pat ys] by auto
qed

lemma contains_append_right: "contains ys pat \<Longrightarrow> contains (xs @ ys) pat"
  by (induction xs) auto

lemma zero_bytes_set: "c \<in> set (zero_bytes n) \<Longrightarrow> c = CHR '' '' \<or> c = CHR ''0''"
  by (induction n) (auto simp: zero_bytes_def)

lemma zero_bytes_hex: "py_upper (remove_char CHR '' '' (zero_bytes n)) = replicate (2 * n) CHR ''0''"
  by (induction n) (simp_all add: zero_bytes_def py_upper_def remove_char_def upper_char_def)

lemma rstrip_newlines_id: "CHR 0x0A \<notin> set s \<Longrightarrow> rstrip_newlines s = s"
  by (cases "rev s") (auto simp: rstrip_newlines_def)

lemma rstrip_newlines_snoc: "rstrip_newlines (s @ newline) = rstrip_newlines s"
  by (simp add: rstrip_newlines_def newline_def)

lemma split_acc_sep:
  "c \<notin> set s \<Longrightarrow> lim \<noteq> Some 0 \<Longrightarrow>
   split_acc [c] lim acc (s @ c # t) = (rev acc @ s) # split_acc [c] (map_option (\<lambda>k. k - 1) lim) [] t"
  by (induction s arbitrary: acc) auto

lemma get_hex_third:
  assumes "CHR '':'' \<notin> set a" "CHR '':'' \<notin> set b" "CHR '':'' \<notin> set payload"
  shows "get_hex (a @ CHR '':'' # b @ CHR '':'' # payload) = py_upper (remove_char CHR '' '' payload)"
  using assms by (simp add: get_hex_def py_split_max_def split_acc_sep split_acc_no_sep)


lemma py_str_set: "c \<in> set (py_str (int n)) \<Longrightarrow> digit_in 10 c"
  using digits_of_digit_in[where f = "\<lambda>c. c" and b = 10 and n = "int n"]
  by (simp add: py_str_def digit_value_digit_char)

lemma digit_in_10_range: "digit_in 10 c \<Longrightarrow> 48 \<le> (of_char c :: nat) \<and> (of_char c :: nat) \<le> 57"
  by (auto simp: digit_in_def digit_value_def Let_def split: option.splits if_splits)

lemma hexdump_text_set:
  assumes "c \<in> set (hexdump_text label n)"
  shows "c \<in> set label \<or> c \<in> set (''WPS: '' @ '' - hexdump(len='' @ ''):'') \<or> c = CHR '' ''
         \<or> (48 \<le> (of_char c :: nat) \<and> (of_char c :: nat) \<le> 57)"
proof -
  from assms have "c \<in> set ''WPS: '' \<or> c \<in> set label \<or> c \<in> set '' - hexdump(len=''
      \<or> c \<in> set (py_str (int n)) \<or> c \<in> set ''):'' \<or> c \<in> set (zero_bytes n)"
    by (simp only: hexdump_text_def set_append Un_iff)
  moreover have "c \<in> set (py_str (int n)) \<Longrightarrow> 48 \<le> (of_char c :: nat) \<and> (of_char c :: nat) \<le> 57"
    using digit_in_10_range[OF py_str_set] by blast
  moreover have "c \<in> set (zero_bytes n) \<Longrightarrow> c = CHR '' '' \<or> 48 \<le> (of_char c :: nat) \<and> (of_char c :: nat) \<le> 57"
    using zero_bytes_set[of c n] by auto
  ultimately show ?thesis
    by (simp only: set_append Un_iff) blast
qed

lemma hexdump_text_lacks:
  assumes "c \<in> set pat" "c \<notin> set label" "c \<notin> set (''WPS: '' @ '' - hexdump(len='' @ ''):'')"
    and "c \<noteq> CHR '' ''" and "\<not> (48 \<le> (of_char c :: nat) \<and> (of_char c :: nat) \<le> 57)"
  shows "contains (hexdump_text label n) pat = False"
proof -
  have "c \<notin> set (hexdump_text label n)"
    using hexdump_text_set[of c label n] assms(2-5) by blast
  with assms(1) show ?thesis by (rule not_contains)
qed

lemma hexdump_line_text:
  assumes "CHR 0x0A \<notin> set label"
  shows "rstrip_newlines (hexdump_line label n) = hexdump_text label n"
proof -
  have "CHR 0x0A \<notin> set (''WPS: '' @ '' - hexdump(len='' @ ''):'')" by simp
  then have "CHR 0x0A \<notin> set (hexdump_text label n)"
    using hexdump_text_set[of "CHR 0x0A" label n] assms by auto
  then show ?thesis
    by (simp add: hexdump_line_def rstrip_newlines_snoc rstrip_newlines_id)
qed

lemma get_hex_hexdump_text:
  assumes "CHR '':'' \<notin> set label"
  shows "get_hex (hexdump_text label n) = replicate (2 * n) CHR ''0''"
proof -
  let ?b = "'' '' @ label @ '' - hexdump(len='' @ py_str (int n) @ '')''"
  have k: "CHR '':'' \<notin> set (py_str (int n))"
    using digit_in_10_range[OF py_str_set, of "CHR '':''" n] by auto
  have z: "CHR '':'' \<notin> set (zero_bytes n)" using zero_bytes_set[of "CHR '':''" n] by auto
  have b: "CHR '':'' \<notin> set ?b" using assms k by simp
  have a: "CHR '':'' \<notin> set ''WPS''" by simp
  have "hexdump_text label n = ''WPS'' @ CHR '':'' # ?b @ CHR '':'' # zero_bytes n"
    by (simp add: hexdump_text_def)
  then show ?thesis
    using get_hex_third[OF a b z] by (simp add: zero_bytes_hex)
qed

lemma hexdump_text_starts: "startswith (hexdump_text label n) ''WPS: ''"
  by (simp add: hexdump_text_def)

lemma hexdump_text_label: "contains (hexdump_text label n) label"
proof -
  have "contains (label @ ('' - hexdump(len='' @ py_str (int n) @ ''):'' @ zero_bytes n)) label"
  proof (rule contains_append_left)
    show "contains label label"
    proof (cases label)
      case Nil
      then show ?thesis by simp
    next
      case (Cons a l)
      have "startswith s s" for s :: string by (induction s) simp_all
      then show ?thesis using Cons by simp
    qed
  qed
  then have "contains (''WPS: '' @ (label @ ('' - hexdump(len='' @ py_str (int n) @ ''):'' @ zero_bytes n))) label"
    by (rule contains_append_right)
  then show ?thesis by (simp add: hexdump_text_def)
qed

lemma hexdump_text_hexdump: "contains (hexdump_text label n) ''hexdump''"
proof -
  have "contains ('' - hexdump(len='' @ (py_str (int n) @ ''):'' @ zero_bytes n)) ''hexdump''"
    by (rule contains_append_left) simp
  then have "contains (label @ '' - hexdump(len='' @ (py_str (int n) @ ''):'' @ zero_bytes n)) ''hexdump''"
    by (rule contains_append_right)
  then have "contains (''WPS: '' @ (label @ '' - hexdump(len='' @ (py_str (int n) @ ''):'' @ zero_bytes n))) ''hexdump''"
    by (rule contains_append_right)
  then show ?thesis by (simp add: hexdump_text_def)
qed


lemmas lacks_B = hexdump_text_lacks[where c = "CHR ''B''" and pat = "''Building Message M''"]
lemmas lacks_R1 = hexdump_text_lacks[where c = "CHR ''R''" and pat = "''Received M''"]
lemmas lacks_R2 = hexdump_text_lacks[where c = "CHR ''R''" and pat = "''Received WSC_NACK''"]
lemmas lacks_N = hexdump_text_lacks[where c = "CHR ''N''" and pat = "''Enrollee Nonce''"]
lemmas lacks_w = hexdump_text_lacks[where c = "CHR ''w''" and pat = "''DH own Public Key''"]
lemmas lacks_D1 = hexdump_text_lacks[where c = "CHR ''D''" and pat = "''DH own Public Key''"]
lemmas lacks_D2 = hexdump_text_lacks[where c = "CHR ''D''" and pat = "''DH peer Public Key''"]
lemmas lacks_A = hexdump_text_lacks[where c = "CHR ''A''" and pat = "''AuthKey''"]

lemma handle_e_nonce_line:
  "handle_wpas decode (hexdump_line ''Enrollee Nonce'' n) st
     = (2 * n = 32, st\<lparr>pixie_creds := (pixie_creds st)\<lparr>e_nonce := replicate (2 * n) CHR ''0''\<rparr>\<rparr>)"
proof -
  let ?t = "hexdump_text ''Enrollee Nonce'' n"
  have r: "hexdump_line ''Enrollee Nonce'' n \<noteq> []" by (simp add: hexdump_line_def newline_def)
  have t: "rstrip_newlines (hexdump_line ''Enrollee Nonce'' n) = ?t" by (rule hexdump_line_text) simp
  have g: "get_hex ?t = replicate (2 * n) CHR ''0''" by (rule get_hex_hexdump_text) simp
  have neg: "contains ?t ''Building Message M'' = False" "contains ?t ''Received M'' = False"
            "contains ?t ''Received WSC_NACK'' = False"
    by (simp_all add: lacks_B lacks_R1 lacks_R2)
  have pos: "contains ?t ''Enrollee Nonce''" "contains ?t ''hexdump''"
    by (rule hexdump_text_label, rule hexdump_text_hexdump)
  show ?thesis
    by (simp only: handle_wpas_def r t Let_def hexdump_text_starts wps_line_def neg pos g
         store_e_nonce_def if_True if_False simp_thms)
       simp
qed


lemma handle_pkr_line:
  "handle_wpas decode (hexdump_line ''DH own Public Key'' n) st
     = (2 * n = 384, st\<lparr>pixie_creds := (pixie_creds st)\<lparr>pkr := replicate (2 * n) CHR ''0''\<rparr>\<rparr>)"
proof -
  let ?t = "hexdump_text ''DH own Public Key'' n"
  have r: "hexdump_line ''DH own Public Key'' n \<noteq> []" by (simp add: hexdump_line_def newline_def)
  have t: "rstrip_newlines (hexdump_line ''DH own Public Key'' n) = ?t" by (rule hexdump_line_text) simp
  have g: "get_hex ?t = replicate (2 * n) CHR ''0''" by (rule get_hex_hexdump_text) simp
  have neg: "contains ?t ''Building Message M'' = False" "contains ?t ''Received M'' = False" "contains ?t ''Received WSC_NACK'' = False" "contains ?t ''Enrollee Nonce'' = False"
    by (simp_all add: lacks_B lacks_R1 lacks_R2 lacks_N)
  have pos: "contains ?t ''DH own Public Key''" "contains ?t ''hexdump''"
    by (rule hexdump_text_label, rule hexdump_text_hexdump)
  show ?thesis
    by (simp only: handle_wpas_def r t Let_def hexdump_text_starts wps_line_def neg pos g
         store_pkr_def if_True if_False simp_thms)
       simp
qed

lemma handle_pke_line:
  "handle_wpas decode (hexdump_line ''DH peer Public Key'' n) st
     = (2 * n = 384, st\<lparr>pixie_creds := (pixie_creds st)\<lparr>pke := replicate (2 * n) CHR ''0''\<rparr>\<rparr>)"
proof -
  let ?t = "hexdump_text ''DH peer Public Key'' n"
  have r: "hexdump_line ''DH peer Public Key'' n \<noteq> []" by (simp add: hexdump_line_def newline_def)
  have t: "rstrip_newlines (hexdump_line ''DH peer Public Key'' n) = ?t" by (rule hexdump_line_text) simp
  have g: "get_hex ?t = replicate (2 * n) CHR ''0''" by (rule get_hex_hexdump_text) simp
  have neg: "contains ?t ''Building Message M'' = False" "contains ?t ''Received M'' = False" "contains ?t ''Received WSC_NACK'' = False" "contains ?t ''Enrollee Nonce'' = False" "contains ?t ''DH own Public Key'' = False"
    by (simp_all add: lacks_B lacks_R1 lacks_R2 lacks_N lacks_w)
  have pos: "contains ?t ''DH peer Public Key''" "contains ?t ''hexdump''"
    by (rule hexdump_text_label, rule hexdump_text_hexdump)
  show ?thesis
    by (simp only: handle_wpas_def r t Let_def hexdump_text_starts wps_line_def neg pos g
         store_pke_def if_True if_False simp_thms)
       simp
qed

lemma handle_authkey_line:
  "handle_wpas decode (hexdump_line ''AuthKey'' n) st
     = (2 * n = 64, st\<lparr>pixie_creds := (pixie_creds st)\<lparr>authkey := replicate (2 * n) CHR ''0''\<rparr>\<rparr>)"
proof -
  let ?t = "hexdump_text ''AuthKey'' n"
  have r: "hexdump_line ''AuthKey'' n \<noteq> []" by (simp add: hexdump_line_def newline_def)
  have t: "rstrip_newlines (hexdump_line ''AuthKey'' n) = ?t" by (rule hexdump_line_text) simp
  have g: "get_hex ?t = replicate (2 * n) CHR ''0''" by (rule get_hex_hexdump_text) simp
  have neg: "contains ?t ''Building Message M'' = False" "contains ?t ''Received M'' = False" "contains ?t ''Received WSC_NACK'' = False" "contains ?t ''Enrollee Nonce'' = False" "contains ?t ''DH own Public Key'' = False" "contains ?t ''DH peer Public Key'' = False"
    by (simp_all add: lacks_B lacks_R1 lacks_R2 lacks_N lacks_D1 lacks_D2)
  have pos: "contains ?t ''AuthKey''" "contains ?t ''hexdump''"
    by (rule hexdump_text_label, rule hexdump_text_hexdump)
  show ?thesis
    by (simp only: handle_wpas_def r t Let_def hexdump_text_starts wps_line_def neg pos g
         store_authkey_def if_True if_False simp_thms)
       simp
qed

lemma handle_e_hash1_line:
  "handle_wpas decode (hexdump_line ''E-Hash1'' n) st
     = (2 * n = 64, st\<lparr>pixie_creds := (pixie_creds st)\<lparr>e_hash1 := replicate (2 * n) CHR ''0''\<rparr>\<rparr>)"
proof -
  let ?t = "hexdump_text ''E-Hash1'' n"
  have r: "hexdump_line ''E-Hash1'' n \<noteq> []" by (simp add: hexdump_line_def newline_def)
  have t: "rstrip_newlines (hexdump_line ''E-Hash1'' n) = ?t" by (rule hexdump_line_text) simp
  have g: "get_hex ?t = replicate (2 * n) CHR ''0''" by (rule get_hex_hexdump_text) simp
  have neg: "contains ?t ''Building Message M'' = False" "contains ?t ''Received M'' = False" "contains ?t ''Received WSC_NACK'' = False" "contains ?t ''Enrollee Nonce'' = False" "contains ?t ''DH own Public Key'' = False" "contains ?t ''DH peer Public Key'' = False" "contains ?t ''AuthKey'' = False"
    by (simp_all add: lacks_B lacks_R1 lacks_R2 lacks_N lacks_D1 lacks_D2 lacks_A)
  have pos: "contains ?t ''E-Hash1''" "contains ?t ''hexdump''"
    by (rule hexdump_text_label, rule hexdump_text_hexdump)
  show ?thesis
    by (simp only: handle_wpas_def r t Let_def hexdump_text_starts wps_line_def neg pos g
         store_e_hash1_def if_True if_False simp_thms)
       simp
qed

lemma hexdump_text_members:
  "c \<in> set (hexdump_text label n) \<Longrightarrow>
   c \<in> set ''WPS: '' \<or> c \<in> set label \<or> c \<in> set '' - hexdump(len=''
      \<or> c \<in> set (py_str (int n)) \<or> c \<in> set ''):'' \<or> c \<in> set (zero_bytes n)"
  by (simp only: hexdump_text_def set_append Un_iff)

lemma e_hash2_lacks_e_hash1:
  assumes "CHR ''1'' \<notin> set (py_str (int n))"
  shows "contains (hexdump_text ''E-Hash2'' n) ''E-Hash1'' = False"
proof -
  have "CHR ''1'' \<notin> set (zero_bytes n)" using zero_bytes_set[of "CHR ''1''" n] by auto
  then have "CHR ''1'' \<notin> set (hexdump_text ''E-Hash2'' n)"
    using hexdump_text_members[of "CHR ''1''" "''E-Hash2''" n] assms by auto
  then show ?thesis by (intro not_contains[where c = "CHR ''1''"]) simp_all
qed

lemma handle_e_hash2_line:
  assumes "CHR ''1'' \<notin> set (py_str (int n))"
  shows "handle_wpas decode (hexdump_line ''E-Hash2'' n) st
     = (2 * n = 64, st\<lparr>pixie_creds := (pixie_creds st)\<lparr>e_hash2 := replicate (2 * n) CHR ''0''\<rparr>\<rparr>)"
proof -
  let ?t = "hexdump_text ''E-Hash2'' n"
  have r: "hexdump_line ''E-Hash2'' n \<noteq> []" by (simp add: hexdump_line_def newline_def)
  have t: "rstrip_newlines (hexdump_line ''E-Hash2'' n) = ?t" by (rule hexdump_line_text) simp
  have g: "get_hex ?t = replicate (2 * n) CHR ''0''" by (rule get_hex_hexdump_text) simp
  have neg: "contains ?t ''Building Message M'' = False" "contains ?t ''Received M'' = False"
            "contains ?t ''Received WSC_NACK'' = False" "contains ?t ''Enrollee Nonce'' = False"
            "contains ?t ''DH own Public Key'' = False" "contains ?t ''DH peer Public Key'' = False"
            "contains ?t ''AuthKey'' = False"
    by (simp_all add: lacks_B lacks_R1 lacks_R2 lacks_N lacks_D1 lacks_D2 lacks_A)
  have neg1: "contains ?t ''E-Hash1'' = False" using assms by (rule e_hash2_lacks_e_hash1)
  have pos: "contains ?t ''E-Hash2''" "contains ?t ''hexdump''"
    by (rule hexdump_text_label, rule hexdump_text_hexdump)
  show ?thesis
    by (simp only: handle_wpas_def r t Let_def hexdump_text_starts wps_line_def neg neg1 pos g
         store_e_hash2_def if_True if_False simp_thms)
       simp
qed

section \<open>C3: message 5 and first-half validity\<close>

lemma handle_received_M5:
  "handle_wpas decode (trace_line ''WPS: Received M5'') st = (True, set_last_m 5 st)"
  by (simp add: handle_wpas_def wps_line_def message_number_def rstrip_newlines_def newline_def trace_line_def
      py_split_def py_int_def int_strip_def int_space_def digit_value_def Let_def)

lemma handle_building_M6:
  "handle_wpas decode (trace_line ''WPS: Building Message M6'') st = (True, set_last_m 6 st)"
  by (simp add: handle_wpas_def wps_line_def message_number_def rstrip_newlines_def newline_def trace_line_def
      py_split_def py_int_def int_strip_def int_space_def digit_value_def remove_char_def Let_def)

lemma handle_received_nack:
  "handle_wpas decode (trace_line ''WPS: Received WSC_NACK'') st = (True, set_status ''WSC_NACK'' st)"
  by (simp add: handle_wpas_def wps_line_def rstrip_newlines_def newline_def trace_line_def Let_def)

text \<open>
  C3 (as amended). After the lines \<^verbatim>\<open>WPS: Received M5\<close> and \<^verbatim>\<open>WPS: Received WSC_NACK\<close>
  the status is \<^verbatim>\<open>WSC_NACK\<close> and the last message number is 5, for which
  \<^verbatim>\<open>isFirstHalfValid\<close> (last message number above 5) is false. When
  \<^verbatim>\<open>WPS: Building Message M6\<close> comes between the two lines, the last message number is 6
  and \<^verbatim>\<open>isFirstHalfValid\<close> is true.
\<close>

theorem first_half_valid_needs_message_6:
  "conn (wps_connection decode ''OK''
      [trace_line ''WPS: Received M5'', trace_line ''WPS: Received WSC_NACK''] st)
     = \<lparr>status = ''WSC_NACK'', last_m_message = 5, essid = [], wpa_psk = []\<rparr> \<and>
   \<not> isFirstHalfValid (conn (wps_connection decode ''OK''
      [trace_line ''WPS: Received M5'', trace_line ''WPS: Received WSC_NACK''] st)) \<and>
   conn (wps_connection decode ''OK''
      [trace_line ''WPS: Received M5'', trace_line ''WPS: Building Message M6'',
       trace_line ''WPS: Received WSC_NACK''] st)
     = \<lparr>status = ''WSC_NACK'', last_m_message = 6, essid = [], wpa_psk = []\<rparr> \<and>
   isFirstHalfValid (conn (wps_connection decode ''OK''
      [trace_line ''WPS: Received M5'', trace_line ''WPS: Building Message M6'',
       trace_line ''WPS: Received WSC_NACK''] st))"
  by (simp add: wps_connection_def handle_received_M5 handle_building_M6 handle_received_nack
      set_last_m_def set_status_def ConnectionStatus_def isFirstHalfValid_def)

theorem received_M5_then_nack_counterexample:
  "status (conn (wps_connection Some ''OK''
      [trace_line ''WPS: Received M5'', trace_line ''WPS: Received WSC_NACK''] idle)) = ''WSC_NACK'' \<and>
   last_m_message (conn (wps_connection Some ''OK''
      [trace_line ''WPS: Received M5'', trace_line ''WPS: Received WSC_NACK''] idle)) = 5 \<and>
   isFirstHalfValid (conn (wps_connection Some ''OK''
      [trace_line ''WPS: Received M5'', trace_line ''WPS: Received WSC_NACK''] idle)) = False"
  by (simp add: wps_connection_def handle_received_M5 handle_received_nack
      set_last_m_def set_status_def ConnectionStatus_def isFirstHalfValid_def)

section \<open>C4: completeness of the handshake parameters\<close>

lemma feed_all_lengths_ok:
  "feed_all decode lines st = (True, st') \<Longrightarrow> lengths_ok (pixie_creds st) \<Longrightarrow> lengths_ok (pixie_creds st')"
proof (induction lines arbitrary: st)
  case Nil
  then show ?case by simp
next
  case (Cons raw rest)
  obtain res st1 where h: "handle_wpas decode raw st = (res, st1)" by (cases "handle_wpas decode raw st")
  with Cons.prems(1) have r: "res" and f: "feed_all decode rest st1 = (True, st')"
    by (auto split: if_splits)
  have "keeps_lengths st (handle_wpas decode raw st)" by (rule handle_wpas_keeps)
  with h r Cons.prems(2) have "lengths_ok (pixie_creds st1)" by (simp add: keeps_lengths_def)
  with f show ?case by (rule Cons.IH)
qed

text \<open>
  What the assertions of \<^verbatim>\<open>__handle_wpas\<close> give for as long as none of them fails: after
  a run in which the method returned \<^verbatim>\<open>True\<close> for every line since the fields were
  cleared, every field that is not empty has the asserted number of characters.
\<close>

lemma accepted_lines_keep_asserted_lengths:
  assumes "feed_all decode lines (st\<lparr>pixie_creds := PixiewpsData\<rparr>) = (True, st')"
  shows "lengths_ok (pixie_creds st')"
proof -
  have "lengths_ok (pixie_creds (st\<lparr>pixie_creds := PixiewpsData\<rparr>))"
    by (simp add: lengths_ok_def PixiewpsData_def)
  with assms show ?thesis by (rule feed_all_lengths_ok)
qed

lemma py_str_2: "py_str 2 = ''2''"
  by code_simp

lemmas handle_e_hash2_2 = handle_e_hash2_line[where n = 2, simplified py_str_2 of_nat_numeral, simplified]

lemma wrong_length_run:
  "wps_connection decode ''OK'' (take 5 complete_trace @ [hexdump_line ''E-Hash2'' 2]) st
     = st\<lparr>pixie_creds :=
          \<lparr>pke = replicate 384 CHR ''0'', pkr = replicate 384 CHR ''0'',
           e_hash1 = replicate 64 CHR ''0'', e_hash2 = replicate 4 CHR ''0'',
           authkey = replicate 64 CHR ''0'', e_nonce = replicate 32 CHR ''0''\<rparr>,
          conn := ConnectionStatus\<rparr>"
  by (simp add: complete_trace_def wps_connection_def handle_e_nonce_line handle_pke_line
      handle_pkr_line handle_authkey_line handle_e_hash1_line handle_e_hash2_2
      PixiewpsData_def ConnectionStatus_def)

text \<open>
  C4. \<^verbatim>\<open>got_all\<close> tests that the six fields are non-empty and nothing else.
  \<^verbatim>\<open>__handle_wpas\<close> assigns a field first and asserts its length afterwards; the
  \<^verbatim>\<open>AssertionError\<close> is caught by the method itself, which returns \<^verbatim>\<open>False\<close> and
  leaves the assigned value in place. So a payload of the wrong length counts as
  collected: after five dumps of the mandated lengths and an \<^verbatim>\<open>E-Hash2\<close> dump of 2
  bytes, from any state, the method has returned \<^verbatim>\<open>False\<close> for the last line and
  \<^verbatim>\<open>got_all\<close> is true with an \<^verbatim>\<open>E-Hash2\<close> of 4 characters. The assertion counts the
  characters of the text and does not decode it: a dump of 32 groups \<^verbatim>\<open>ZZ\<close> is
  accepted and stored, though \<^verbatim>\<open>bytes.fromhex\<close> rejects the stored text.
\<close>

theorem wrong_length_payload_counts_as_collected:
  "fst (handle_wpas decode (hexdump_line ''E-Hash2'' 2) st) = False \<and>
   got_all (pixie_creds (wps_connection decode ''OK''
      (take 5 complete_trace @ [hexdump_line ''E-Hash2'' 2]) st)) \<and>
   length (e_hash2 (pixie_creds (wps_connection decode ''OK''
      (take 5 complete_trace @ [hexdump_line ''E-Hash2'' 2]) st))) = 2 * 2 \<and>
   fst (handle_wpas Some non_hex_dump idle) = True \<and>
   length (e_hash2 (pixie_creds (snd (handle_wpas Some non_hex_dump idle)))) = 32 * 2 \<and>
   fromhex (e_hash2 (pixie_creds (snd (handle_wpas Some non_hex_dump idle)))) = None"
proof (intro conjI)
  show "fst (handle_wpas decode (hexdump_line ''E-Hash2'' 2) st) = False"
    by (simp add: handle_e_hash2_2)
  show "got_all (pixie_creds (wps_connection decode ''OK''
      (take 5 complete_trace @ [hexdump_line ''E-Hash2'' 2]) st))"
    by (simp only: wrong_length_run) (simp add: got_all_def)
  show "length (e_hash2 (pixie_creds (wps_connection decode ''OK''
      (take 5 complete_trace @ [hexdump_line ''E-Hash2'' 2]) st))) = 2 * 2"
    by (simp only: wrong_length_run) simp
  show "fst (handle_wpas Some non_hex_dump idle) = True"
    by code_simp
  show "length (e_hash2 (pixie_creds (snd (handle_wpas Some non_hex_dump idle)))) = 32 * 2"
    by code_simp
  show "fromhex (e_hash2 (pixie_creds (snd (handle_wpas Some non_hex_dump idle)))) = None"
    by code_simp
qed

section \<open>C1: the checksum digit of generated PINs\<close>

lemma trunc_div_nonneg: "0 \<le> a \<Longrightarrow> 0 < b \<Longrightarrow> trunc_div a b = a div b"
  by (simp add: trunc_div_def)

lemma checksum_loop_zero: "checksum_loop accum 0 = accum"
  by (subst checksum_loop.simps) simp

lemma checksum_loop_step:
  "0 < pin \<Longrightarrow> checksum_loop accum pin
     = checksum_loop (accum + 3 * (pin mod 10) + pin div 10 mod 10) (pin div 100)"
proof -
  assume p: "0 < pin"
  have q: "0 \<le> pin div 10" using p by simp
  have d: "pin div 10 div 10 = pin div 100" by simp
  have t1: "trunc_div pin 10 = pin div 10" using p by (simp add: trunc_div_nonneg)
  have t2: "trunc_div (pin div 10) 10 = pin div 100" using q d by (simp add: trunc_div_nonneg)
  have "checksum_loop accum pin = checksum_loop (accum + 3 * (pin mod 10) + trunc_div pin 10 mod 10)
             (trunc_div (trunc_div pin 10) 10)"
    using p by (subst checksum_loop.simps) simp
  then show ?thesis by (simp only: t1 t2)
qed

lemma checksum_seven_digits:
  assumes lo: "1000000 \<le> p" and hi: "p < 10000000"
  shows "checksum p = checksum_spec p"
proof -
  have d2: "p div 100 div 100 = p div 10000" "p div 10000 div 100 = p div 1000000"
           "p div 1000000 div 100 = p div 100000000"
           "p div 100 div 10 = p div 1000" "p div 10000 div 10 = p div 100000"
           "p div 1000000 div 10 = p div 10000000"
    by simp_all
  have p1: "0 < p" using lo by simp
  have p2: "0 < p div 100" using lo by (simp add: pos_imp_zdiv_pos_iff)
  have p3: "0 < p div 10000" using lo by (simp add: pos_imp_zdiv_pos_iff)
  have p4: "0 < p div 1000000" using lo by (simp add: pos_imp_zdiv_pos_iff)
  have z: "p div 100000000 = 0" "p div 10000000 = 0" using lo hi by simp_all
  have "checksum_loop 0 p = checksum_loop (0 + 3 * (p mod 10) + p div 10 mod 10) (p div 100)"
    by (rule checksum_loop_step[OF p1])
  also have "\<dots> = checksum_loop (0 + 3 * (p mod 10) + p div 10 mod 10
                    + 3 * (p div 100 mod 10) + p div 1000 mod 10) (p div 10000)"
    by (simp only: checksum_loop_step[OF p2] d2)
  also have "\<dots> = checksum_loop (0 + 3 * (p mod 10) + p div 10 mod 10
                    + 3 * (p div 100 mod 10) + p div 1000 mod 10
                    + 3 * (p div 10000 mod 10) + p div 100000 mod 10) (p div 1000000)"
    by (simp only: checksum_loop_step[OF p3] d2)
  also have "\<dots> = checksum_loop (0 + 3 * (p mod 10) + p div 10 mod 10
                    + 3 * (p div 100 mod 10) + p div 1000 mod 10
                    + 3 * (p div 10000 mod 10) + p div 100000 mod 10
                    + 3 * (p div 1000000 mod 10) + p div 10000000 mod 10) (p div 100000000)"
    by (simp only: checksum_loop_step[OF p4] d2)
  also have "\<dots> = 3 * (p mod 10) + p div 10 mod 10
                    + 3 * (p div 100 mod 10) + p div 1000 mod 10
                    + 3 * (p div 10000 mod 10) + p div 100000 mod 10
                    + 3 * (p div 1000000 mod 10)"
    by (simp only: z checksum_loop_zero) simp
  finally show ?thesis by (simp only: checksum_def checksum_spec_def)
qed

lemma checksum_range: "0 \<le> checksum p \<and> checksum p < 10"
  by (simp add: checksum_def)

lemma py_str_digit: "0 \<le> d \<Longrightarrow> d < 10 \<Longrightarrow> py_str d = [digit_char (nat d)]"
  by (simp add: py_str_def digits_of_small)

lemma py_int_py_str: "0 \<le> n \<Longrightarrow> py_int 10 (py_str n) = Some n"
proof -
  assume n: "0 \<le> n"
  have all: "\<forall>c\<in>set (digits_of 10 n). digit_in 10 c"
    using digits_of_digit_in[where f = "\<lambda>c. c" and b = 10 and n = n] n
    by (simp add: digit_value_digit_char)
  have "py_digits 10 0 (digits_of 10 n) = Some n"
    using py_digits_digits_of[where f = "\<lambda>c. c" and b = 10 and n = n] n
    by (simp add: digit_value_digit_char)
  then show ?thesis
    using n by (simp add: py_str_def py_int_digits[OF digits_of_nonempty all])
qed


text \<open>
  C1. When a registered algorithm other than the empty one yields, for the given MAC, a
  value whose residue modulo 10,000,000 is a 7-digit number \<open>p\<close>, \<^verbatim>\<open>generate\<close>
  returns the 8-character text made of the 7 digits of \<open>p\<close> followed by one digit; reading
  the first 7 characters back gives \<open>p\<close>, and the 8th character is the checksum of \<open>p\<close>,
  which equals three times the units digit plus the tens digit accumulated over the digit
  pairs of \<open>p\<close>, taken as \<^verbatim>\<open>(10 - sum mod 10) mod 10\<close>.
\<close>

theorem generate_appends_checksum_digit:
  assumes reg: "map_of algos algo = Some a" and ne: "algo \<noteq> ''pinEmpty''"
    and mac: "NetworkAddress mac = Inr m" and g: "gen a m = Inr (PinInt v)"
    and p: "v mod 10000000 = p" and lo: "1000000 \<le> p"
  shows "generate algo mac = Inr (Some (PinStr (py_str p @ py_str (checksum p)))) \<and>
         length (py_str p @ py_str (checksum p)) = 8 \<and>
         py_int 10 (take 7 (py_str p @ py_str (checksum p))) = Some p \<and>
         [(py_str p @ py_str (checksum p)) ! 7] = py_str (checksum p) \<and>
         checksum p = checksum_spec p"
proof -
  have hi: "p < 10000000" using p by auto
  have p0: "0 \<le> p" using lo by simp
  have "length (digits_of 10 p) = Suc 6"
    using lo hi by (intro length_digits_of) simp_all
  then have len: "length (py_str p) = Suc 6"
    using p0 by (simp add: py_str_def)
  have c: "py_str (checksum p) = [digit_char (nat (checksum p))]"
    using checksum_range[of p] by (intro py_str_digit) simp_all
  have z: "py_zfill 8 (py_str p @ py_str (checksum p)) = py_str p @ py_str (checksum p)"
    by (simp add: py_zfill_def len c)
  have gen: "generate algo mac = Inr (Some (PinStr (py_str p @ py_str (checksum p))))"
    using reg ne mac g p z by (simp add: generate_def generate_try_def Let_def)
  have l8: "length (py_str p @ py_str (checksum p)) = 8" by (simp add: len c)
  have t7: "py_int 10 (take 7 (py_str p @ py_str (checksum p))) = Some p"
    using py_int_py_str[OF p0] by (simp add: len)
  have n7: "[(py_str p @ py_str (checksum p)) ! 7] = py_str (checksum p)"
    by (simp add: len c nth_append)
  show ?thesis
    using gen l8 t7 n7 checksum_seven_digits[OF lo hi] by blast
qed

theorem generate_appends_checksum_digit_witness:
  "map_of algos ''pinCisco'' = Some (static_pin ''Cisco'' 1234567) \<and>
   NetworkAddress (MacStr ''00:11:22:33:44:55'')
     = Inr \<lparr>int_repr = 73588229205, str_repr = ''00:11:22:33:44:55''\<rparr> \<and>
   generate ''pinCisco'' (MacStr ''00:11:22:33:44:55'')
     = Inr (Some (PinStr (py_str 1234567 @ py_str (checksum 1234567)))) \<and>
   py_str 1234567 @ py_str (checksum 1234567) = ''12345670'' \<and>
   py_int 10 (take 7 (py_str 1234567 @ py_str (checksum 1234567))) = Some 1234567 \<and>
   checksum 1234567 = checksum_spec 1234567"
proof -
  let ?m = "\<lparr>int_repr = 73588229205, str_repr = ''00:11:22:33:44:55''\<rparr>"
  have reg: "map_of algos ''pinCisco'' = Some (static_pin ''Cisco'' 1234567)"
    by (simp add: algos_def)
  have ne: "''pinCisco'' \<noteq> ''pinEmpty''" by simp
  have mac: "NetworkAddress (MacStr ''00:11:22:33:44:55'') = Inr ?m" by code_simp
  have g: "gen (static_pin ''Cisco'' 1234567) ?m = Inr (PinInt 1234567)"
    by (simp add: static_pin_def)
  have p: "(1234567::int) mod 10000000 = 1234567" by simp
  have lo: "(1000000::int) \<le> 1234567" by simp
  have s: "py_str 1234567 @ py_str (checksum 1234567) = ''12345670''" by code_simp
  show ?thesis
    using generate_appends_checksum_digit[OF reg ne mac g p lo] reg mac s by simp
qed

section \<open>Candidates as zero-padded decimal text\<close>

lemma py_digits_foldl:
  "s \<noteq> [] \<Longrightarrow> \<forall>c\<in>set s. digit_in 10 c \<Longrightarrow>
   py_digits 10 acc s = Some (foldl (\<lambda>a c. a * 10 + int (the (digit_value c))) acc s)"
proof (induction s arbitrary: acc)
  case Nil
  then show ?case by simp
next
  case (Cons a s)
  from Cons.prems obtain d where d: "digit_value a = Some d" "int d < 10"
    by (auto simp: digit_in_def split: option.splits)
  show ?case
  proof (cases s)
    case Nil
    with d show ?thesis by simp
  next
    case (Cons a' s')
    then have ne: "s \<noteq> []" by simp
    have "digit_in 10 a'" using Cons.prems Cons by simp
    then have nu: "a' \<noteq> CHR ''_''"
      by (auto simp: digit_in_def digit_value_def Let_def split: option.splits if_splits)
    have "py_digits 10 (acc * 10 + int d) s
            = Some (foldl (\<lambda>a c. a * 10 + int (the (digit_value c))) (acc * 10 + int d) s)"
      using Cons.IH[OF ne] Cons.prems by simp
    with d nu Cons show ?thesis by simp
  qed
qed

lemma py_int_dec:
  "s \<noteq> [] \<Longrightarrow> \<forall>c\<in>set s. digit_in 10 c \<Longrightarrow> py_int 10 s = Some (dec_value s)"
  by (simp add: py_int_digits py_digits_foldl dec_value_def)

lemma foldl_dec_shift:
  "foldl (\<lambda>a c. a * 10 + int (the (digit_value c))) acc s
     = acc * 10 ^ length s + foldl (\<lambda>a c. a * 10 + int (the (digit_value c))) 0 s"
proof (induction s arbitrary: acc)
  case Nil
  then show ?case by simp
next
  case (Cons a s)
  let ?F = "\<lambda>a c. a * 10 + int (the (digit_value c))"
  let ?d = "int (the (digit_value a))"
  have "foldl ?F acc (a # s) = foldl ?F (acc * 10 + ?d) s" by simp
  also have "\<dots> = (acc * 10 + ?d) * 10 ^ length s + foldl ?F 0 s" by (rule Cons.IH)
  also have "\<dots> = acc * 10 ^ length (a # s) + (?d * 10 ^ length s + foldl ?F 0 s)"
    by (simp add: algebra_simps)
  also have "?d * 10 ^ length s + foldl ?F 0 s = foldl ?F ?d s" by (rule Cons.IH[symmetric])
  also have "foldl ?F ?d s = foldl ?F 0 (a # s)" by simp
  finally show ?case .
qed

lemma dec_value_append: "dec_value (s @ t) = dec_value s * 10 ^ length t + dec_value t"
  unfolding dec_value_def foldl_append
  by (rule foldl_dec_shift)

lemma digit_value_zero: "digit_value CHR ''0'' = Some 0"
  by (simp add: digit_value_def)

lemma dec_value_zeros: "dec_value (replicate n CHR ''0'') = 0"
  by (induction n) (simp_all add: dec_value_def digit_value_zero)

lemma dec_value_py_str: "0 \<le> k \<Longrightarrow> dec_value (py_str k) = k"
proof -
  assume k: "0 \<le> k"
  have all: "\<forall>c\<in>set (py_str k). digit_in 10 c"
    using digits_of_digit_in[where f = "\<lambda>c. c" and b = 10 and n = k] k
    by (simp add: py_str_def digit_value_digit_char)
  have ne: "py_str k \<noteq> []" using k by (simp add: py_str_def digits_of_nonempty)
  have "py_int 10 (py_str k) = Some (dec_value (py_str k))" using ne all by (rule py_int_dec)
  with py_int_py_str[OF k] show ?thesis by simp
qed


lemma py_str_digits: "0 \<le> k \<Longrightarrow> \<forall>c\<in>set (py_str k). digit_in 10 c"
  using digits_of_digit_in[where f = "\<lambda>c. c" and b = 10 and n = k]
  by (simp add: py_str_def digit_value_digit_char)

lemma py_str_nonempty: "py_str k \<noteq> []"
  by (simp add: py_str_def digits_of_nonempty)

lemma py_zfill_digits:
  assumes "\<forall>c\<in>set s. digit_in 10 c"
  shows "py_zfill w s = replicate (w - length s) CHR ''0'' @ s"
proof (cases s)
  case Nil
  then show ?thesis by (simp add: py_zfill_def)
next
  case (Cons c cs)
  with assms have "digit_in 10 c" by simp
  then have "c \<noteq> CHR ''+''" "c \<noteq> CHR ''-''" using digit_in_not_special by blast+
  with Cons show ?thesis by (simp add: py_zfill_def)
qed

lemma digit_in_zero: "digit_in 10 CHR ''0''"
  by (simp add: digit_in_def digit_value_zero)

lemma zfill_str_digits:
  assumes "0 \<le> k"
  shows "\<forall>c\<in>set (py_zfill w (py_str k)). digit_in 10 c"
  using py_str_digits[OF assms] digit_in_zero
  by (auto simp: py_zfill_digits)

lemma zfill_str_nonempty: "py_zfill w (py_str k) \<noteq> []"
  using py_str_nonempty[of k] by (auto simp: py_zfill_def split: list.splits)

lemma dec_value_zfill_str: "0 \<le> k \<Longrightarrow> dec_value (py_zfill w (py_str k)) = k"
  by (simp add: py_zfill_digits py_str_digits dec_value_append dec_value_zeros dec_value_py_str)

lemma py_int_f_half: "0 \<le> k \<Longrightarrow> py_int 10 (f_half_of k) = Some k"
  unfolding f_half_of_def
  by (simp add: py_int_dec zfill_str_nonempty zfill_str_digits dec_value_zfill_str)

lemma py_int_s_half: "0 \<le> j \<Longrightarrow> py_int 10 (s_half_of j) = Some j"
  unfolding s_half_of_def
  by (simp add: py_int_dec zfill_str_nonempty zfill_str_digits dec_value_zfill_str)

lemma digit_in_000: "\<forall>c\<in>set ''000''. digit_in 10 c"
  by (simp add: digit_in_zero)

lemma py_int_f_half_000: "0 \<le> k \<Longrightarrow> py_int 10 (f_half_of k @ ''000'') = Some (k * 1000)"
proof -
  assume k: "0 \<le> k"
  have all: "\<forall>c\<in>set (f_half_of k @ ''000''). digit_in 10 c"
    using zfill_str_digits[OF k, of 4] digit_in_zero by (auto simp: f_half_of_def)
  have "dec_value ''000'' = 0" using dec_value_zeros[of 3] by (simp add: numeral_3_eq_3)
  then have "dec_value (f_half_of k @ ''000'') = k * 1000"
    using k by (simp add: dec_value_append f_half_of_def dec_value_zfill_str)
  then show ?thesis using all by (simp add: py_int_dec)
qed

lemma length_digits_of_le:
  "0 \<le> n \<Longrightarrow> n < 10 ^ Suc m \<Longrightarrow> length (digits_of 10 n) \<le> Suc m"
proof (induction m arbitrary: n)
  case 0
  then show ?case by (simp add: digits_of_small)
next
  case (Suc m)
  show ?case
  proof (cases "n < 10")
    case True
    then show ?thesis by (simp add: digits_of_small)
  next
    case False
    have "n div 10 < 10 ^ Suc m"
      using Suc.prems by (intro int_div_less) simp_all
    moreover have "0 \<le> n div 10" using Suc.prems by simp
    ultimately have "length (digits_of 10 (n div 10)) \<le> Suc m" using Suc.IH by blast
    with False show ?thesis by (simp add: digits_of_step)
  qed
qed

lemma length_f_half: "0 \<le> k \<Longrightarrow> k < 10000 \<Longrightarrow> length (f_half_of k) = 4"
  using length_digits_of_le[of k 3]
  by (simp add: f_half_of_def py_zfill_digits py_str_digits) (simp add: py_str_def)

lemma length_s_half: "0 \<le> j \<Longrightarrow> j < 1000 \<Longrightarrow> length (s_half_of j) = 3"
  using length_digits_of_le[of j 2]
  by (simp add: s_half_of_def py_zfill_digits py_str_digits) (simp add: py_str_def)

lemma py_int_f_s_half:
  assumes k: "0 \<le> k" and j: "0 \<le> j" "j < 1000"
  shows "py_int 10 (f_half_of k @ s_half_of j) = Some (k * 1000 + j)"
proof -
  have all: "\<forall>c\<in>set (f_half_of k @ s_half_of j). digit_in 10 c"
    using zfill_str_digits[OF k, of 4] zfill_str_digits[OF j(1), of 3]
    by (auto simp: f_half_of_def s_half_of_def)
  have "dec_value (f_half_of k @ s_half_of j) = k * 1000 + j"
    using k j length_s_half[OF j]
    by (simp add: dec_value_append) (simp add: f_half_of_def s_half_of_def dec_value_zfill_str)
  moreover have "f_half_of k @ s_half_of j \<noteq> []" by (simp add: f_half_of_def zfill_str_nonempty)
  ultimately show ?thesis using py_int_dec[OF _ all] by simp
qed

section \<open>What an attempt leaves unchanged\<close>

lemma same_frame_refl: "same_frame st st"
  by (simp add: same_frame_def)

lemma same_frame_trans: "same_frame a b \<Longrightarrow> same_frame b c \<Longrightarrow> same_frame a c"
  by (simp add: same_frame_def)

lemma same_frame_set_status: "same_frame st (set_status v st)"
  by (simp add: same_frame_def set_status_def)

lemma same_frame_set_last_m: "same_frame st (set_last_m v st)"
  by (simp add: same_frame_def set_last_m_def)

lemma same_frame_message_number: "same_frame st (snd (message_number text st))"
  by (simp add: message_number_def same_frame_set_last_m same_frame_refl split: option.splits)

lemma same_frame_store:
  "same_frame st (snd (store_e_nonce line st))" "same_frame st (snd (store_pkr line st))"
  "same_frame st (snd (store_pke line st))" "same_frame st (snd (store_authkey line st))"
  "same_frame st (snd (store_e_hash1 line st))" "same_frame st (snd (store_e_hash2 line st))"
  by (simp_all add: same_frame_def store_e_nonce_def store_pkr_def store_pke_def
      store_authkey_def store_e_hash1_def store_e_hash2_def Let_def)

lemma same_frame_network_key: "same_frame st (snd (store_network_key line st))"
  by (simp add: store_network_key_def same_frame_def set_status_def Let_def split: option.splits)

lemma same_frame_set_essid: "same_frame st (snd (set_essid decode line st))"
  by (simp add: set_essid_def same_frame_def split: option.splits)

lemma same_frame_essid_status: "same_frame st (snd (set_essid decode line (set_status v st)))"
  using same_frame_trans[OF same_frame_set_status same_frame_set_essid] .

lemma same_frame_wps_line: "same_frame st (snd (wps_line line st))"
  unfolding wps_line_def
  by (simp add: same_frame_message_number same_frame_store same_frame_network_key
      same_frame_set_status same_frame_refl)

lemma same_frame_other_line: "same_frame st (snd (other_line decode line st))"
  unfolding other_line_def
  by (simp add: same_frame_essid_status same_frame_set_status same_frame_refl)

lemma same_frame_handle_wpas: "same_frame st (snd (handle_wpas decode raw st))"
  unfolding handle_wpas_def
  by (simp add: same_frame_wps_line same_frame_other_line same_frame_refl Let_def)

lemma same_frame_wps_loop: "same_frame st (wps_loop decode lines st)"
proof (induction lines arbitrary: st)
  case Nil
  then show ?case using same_frame_handle_wpas[of st decode "[]"] by simp
next
  case (Cons raw rest)
  obtain res st1 where h: "handle_wpas decode raw st = (res, st1)" by (cases "handle_wpas decode raw st")
  have a: "same_frame st st1" using same_frame_handle_wpas[of st decode raw] h by simp
  have b: "same_frame st (wps_loop decode rest st1)" using same_frame_trans[OF a Cons.IH] .
  show ?case using h a b by simp
qed

lemma same_frame_wps_connection: "same_frame st (wps_connection decode reply lines st)"
proof -
  let ?st1 = "st\<lparr>pixie_creds := PixiewpsData, conn := ConnectionStatus\<rparr>"
  have a: "same_frame st ?st1" by (simp add: same_frame_def)
  have b: "same_frame ?st1 (set_status ''WPS_FAIL'' ?st1)" by (rule same_frame_set_status)
  have c: "same_frame ?st1 (wps_loop decode lines ?st1)" by (rule same_frame_wps_loop)
  show ?thesis
    using same_frame_trans[OF a b] same_frame_trans[OF a c]
    by (simp add: wps_connection_def Let_def)
qed

lemma single_connection_facts:
  "conn (snd (single_connection decode io pin st)) = outcome decode st io"
  "tried (snd (single_connection decode io pin st)) = tried st @ [pin]"
  "mask (snd (single_connection decode io pin st)) = mask st"
  "session (snd (single_connection decode io pin st)) = session st"
  "interface (snd (single_connection decode io pin st)) = interface st"
  using same_frame_wps_connection[of st decode "fst io" "snd io"]
  by (simp_all add: single_connection_def outcome_def same_frame_def Let_def)


lemma registerAttempt_facts:
  "mask (registerAttempt m st) = m" "tried (registerAttempt m st) = tried st"
  "session (registerAttempt m st) = session st" "interface (registerAttempt m st) = interface st"
  "conn (registerAttempt m st) = conn st"
  by (simp_all add: registerAttempt_def)

section \<open>One step and many steps of the two phases\<close>

lemma first_half_step:
  assumes "0 \<le> k" "k < 10000"
  shows "first_half_bruteforce decode d (Attempt f # evs) (f_half_of k) st =
     (let st1 = snd (single_connection decode (f (first_half_pin k)) (first_half_pin k) st) in
      if isFirstHalfValid (conn st1) then (Returned (Some (f_half_of k)), st1, evs)
      else if status (conn st1) = ''WPS_FAIL''
      then (case d of
              0 \<Rightarrow> (Raised RecursionError, st1, evs)
            | Suc d' \<Rightarrow> first_half_bruteforce decode d' evs (f_half_of k) st1)
      else first_half_bruteforce decode d evs (f_half_of (k + 1)) (registerAttempt (f_half_of (k + 1)) st1))"
proof -
  have e: "py_zfill 4 (py_str (k + 1)) = f_half_of (k + 1)" by (simp add: f_half_of_def)
  show ?thesis
    using assms by (simp add: py_int_f_half py_int_f_half_000 e first_half_pin_def Let_def)
qed


lemma first_half_exhausted:
  "first_half_bruteforce decode d evs (f_half_of 10000) st = (Returned None, st, evs)"
  by (cases evs) (simp_all add: py_int_f_half)


declare first_half_bruteforce.simps [simp del]

lemma first_half_advance:
  assumes "\<forall>i<length fs. rejects1 decode (fs ! i) (k + int i)" "0 \<le> k"
    and "k + int (length fs) \<le> 10000"
  shows "\<exists>st'. first_half_bruteforce decode d (map Attempt fs @ rest) (f_half_of k) st
               = first_half_bruteforce decode d rest (f_half_of (k + int (length fs))) st'
           \<and> tried st' = tried st @ map (\<lambda>i. first_half_pin (k + int i)) [0..<length fs]
           \<and> mask st' = (if fs = [] then mask st else f_half_of (k + int (length fs)))
           \<and> session st' = session st \<and> interface st' = interface st"
  using assms
proof (induction fs arbitrary: k st)
  case Nil
  show ?case by (intro exI[of _ st]) simp
next
  case (Cons f fs)
  let ?pin = "first_half_pin k"
  let ?st1 = "snd (single_connection decode (f ?pin) ?pin st)"
  let ?st2 = "registerAttempt (f_half_of (k + 1)) ?st1"
  have k: "0 \<le> k" "k < 10000" using Cons.prems by simp_all
  have "rejects1 decode f k" using Cons.prems(1) by fastforce
  then have r: "\<not> isFirstHalfValid (conn ?st1)" "status (conn ?st1) \<noteq> ''WPS_FAIL''"
    by (simp_all add: rejects1_def single_connection_facts)
  have step: "first_half_bruteforce decode d (map Attempt (f # fs) @ rest) (f_half_of k) st
                = first_half_bruteforce decode d (map Attempt fs @ rest) (f_half_of (k + 1)) ?st2"
    using r by (simp add: first_half_step[OF k] Let_def)
  have p1: "\<forall>i<length fs. rejects1 decode (fs ! i) (k + 1 + int i)"
  proof (intro allI impI)
    fix i assume "i < length fs"
    then have "rejects1 decode ((f # fs) ! Suc i) (k + int (Suc i))"
      using Cons.prems(1) by (metis length_Cons Suc_less_eq)
    moreover have "k + int (Suc i) = k + 1 + int i" by simp
    ultimately show "rejects1 decode (fs ! i) (k + 1 + int i)" by (simp only: nth_Cons_Suc)
  qed
  have p2: "0 \<le> k + 1" using k by simp
  have p3: "k + 1 + int (length fs) \<le> 10000" using Cons.prems(3) by simp
  obtain st' where st':
    "first_half_bruteforce decode d (map Attempt fs @ rest) (f_half_of (k + 1)) ?st2
       = first_half_bruteforce decode d rest (f_half_of (k + 1 + int (length fs))) st'"
    "tried st' = tried ?st2 @ map (\<lambda>i. first_half_pin (k + 1 + int i)) [0..<length fs]"
    "mask st' = (if fs = [] then mask ?st2 else f_half_of (k + 1 + int (length fs)))"
    "session st' = session ?st2" "interface st' = interface ?st2"
    using Cons.IH[OF p1 p2 p3, of ?st2] by blast
  have e: "k + 1 + int (length fs) = k + int (length (f # fs))" by simp
  have t: "tried st' = tried st @ map (\<lambda>i. first_half_pin (k + int i)) [0..<length (f # fs)]"
    using st'(2)
    by (simp add: registerAttempt_facts single_connection_facts map_upt_Suc add.assoc
        del: upt_Suc)
  have m: "mask st' = f_half_of (k + int (length (f # fs)))"
    using st'(3) unfolding e by (simp add: registerAttempt_facts)
  have s: "session st' = session st" "interface st' = interface st"
    using st'(4,5) by (simp_all add: registerAttempt_facts single_connection_facts)
  show ?case
    using step st'(1) t m s unfolding e by (intro exI[of _ st']) simp
qed


lemma first_half_retry:
  assumes "\<forall>f\<in>set fs. fails1 decode f k" "0 \<le> k" "k < 10000" "length fs \<le> d"
  shows "\<exists>st'. first_half_bruteforce decode d (map Attempt fs @ rest) (f_half_of k) st
               = first_half_bruteforce decode (d - length fs) rest (f_half_of k) st'
           \<and> tried st' = tried st @ replicate (length fs) (first_half_pin k)
           \<and> mask st' = mask st \<and> session st' = session st \<and> interface st' = interface st"
  using assms
proof (induction fs arbitrary: d st)
  case Nil
  show ?case by (intro exI[of _ st]) simp
next
  case (Cons f fs)
  let ?pin = "first_half_pin k"
  let ?st1 = "snd (single_connection decode (f ?pin) ?pin st)"
  have k: "0 \<le> k" "k < 10000" using Cons.prems by simp_all
  obtain d' where d: "d = Suc d'" "length fs \<le> d'"
    using Cons.prems by (cases d) simp_all
  have "fails1 decode f k" using Cons.prems(1) by simp
  then have r: "\<not> isFirstHalfValid (conn ?st1)" "status (conn ?st1) = ''WPS_FAIL''"
    by (simp_all add: fails1_def single_connection_facts not_less)
  have step: "first_half_bruteforce decode d (map Attempt (f # fs) @ rest) (f_half_of k) st
                = first_half_bruteforce decode d' (map Attempt fs @ rest) (f_half_of k) ?st1"
    using r by (simp add: first_half_step[OF k] Let_def d(1))
  have p1: "\<forall>f\<in>set fs. fails1 decode f k" using Cons.prems(1) by simp
  obtain st' where st':
    "first_half_bruteforce decode d' (map Attempt fs @ rest) (f_half_of k) ?st1
       = first_half_bruteforce decode (d' - length fs) rest (f_half_of k) st'"
    "tried st' = tried ?st1 @ replicate (length fs) (first_half_pin k)"
    "mask st' = mask ?st1" "session st' = session ?st1" "interface st' = interface ?st1"
    using Cons.IH[OF p1 k d(2), of ?st1] by blast
  have t: "tried st' = tried st @ replicate (length (f # fs)) (first_half_pin k)"
    using st'(2) by (simp add: single_connection_facts replicate_app_Cons_same)
  have s: "mask st' = mask st" "session st' = session st" "interface st' = interface st"
    using st'(3,4,5) by (simp_all add: single_connection_facts)
  have e: "d - length (f # fs) = d' - length fs" using d(1) by simp
  show ?case
    using step st'(1) t s unfolding e by (intro exI[of _ st']) simp
qed

lemma first_half_overflow:
  assumes "\<forall>f\<in>set fs. fails1 decode f k" "0 \<le> k" "k < 10000" "length fs = Suc d"
  shows "\<exists>st'. first_half_bruteforce decode d (map Attempt fs @ rest) (f_half_of k) st
               = (Raised RecursionError, st', rest)
           \<and> tried st' = tried st @ replicate (Suc d) (first_half_pin k)
           \<and> mask st' = mask st \<and> session st' = session st \<and> interface st' = interface st"
proof -
  obtain fs' f where fs: "fs = fs' @ [f]" "length fs' = d"
    using assms by (cases fs rule: rev_cases) simp_all
  have p1: "\<forall>f\<in>set fs'. fails1 decode f k" using assms(1) fs(1) by simp
  have k: "0 \<le> k" "k < 10000" using assms by simp_all
  have le: "length fs' \<le> d" using fs(2) by simp
  obtain st1 where st1:
    "first_half_bruteforce decode d (map Attempt fs' @ Attempt f # rest) (f_half_of k) st
       = first_half_bruteforce decode (d - length fs') (Attempt f # rest) (f_half_of k) st1"
    "tried st1 = tried st @ replicate (length fs') (first_half_pin k)"
    "mask st1 = mask st" "session st1 = session st" "interface st1 = interface st"
    using first_half_retry[OF p1 k le, of "Attempt f # rest" st] by blast
  let ?pin = "first_half_pin k"
  let ?st2 = "snd (single_connection decode (f ?pin) ?pin st1)"
  have "fails1 decode f k" using assms(1) fs(1) by simp
  then have r: "\<not> isFirstHalfValid (conn ?st2)" "status (conn ?st2) = ''WPS_FAIL''"
    by (simp_all add: fails1_def single_connection_facts not_less)
  have z: "d - length fs' = 0" using fs(2) by simp
  have step: "first_half_bruteforce decode (d - length fs') (Attempt f # rest) (f_half_of k) st1
                = (Raised RecursionError, ?st2, rest)"
    using r unfolding z by (simp add: first_half_step[OF k] Let_def)
  have run: "first_half_bruteforce decode d (map Attempt fs @ rest) (f_half_of k) st = (Raised RecursionError, ?st2, rest)"
    using st1(1) step by (simp add: fs(1))
  have t: "tried ?st2 = tried st @ replicate (Suc d) (first_half_pin k)"
    using st1(2) fs(2) by (simp add: single_connection_facts replicate_append_same)
  have s: "mask ?st2 = mask st" "session ?st2 = session st" "interface ?st2 = interface st"
    using st1(3,4,5) by (simp_all add: single_connection_facts)
  show ?thesis using run t s by (intro exI[of _ ?st2]) simp
qed

lemma second_half_step:
  assumes "0 \<le> k" "0 \<le> j" "j < 1000"
  shows "second_half_bruteforce decode d (Attempt f # evs) (f_half_of k) (s_half_of j) st =
     (let st1 = snd (single_connection decode (f (second_half_pin k j)) (second_half_pin k j) st) in
      if 6 < last_m_message (conn st1) then (Returned (Some (second_half_pin k j)), st1, evs)
      else if status (conn st1) = ''WPS_FAIL''
      then (case d of
              0 \<Rightarrow> (Raised RecursionError, st1, evs)
            | Suc d' \<Rightarrow> second_half_bruteforce decode d' evs (f_half_of k) (s_half_of j) st1)
      else second_half_bruteforce decode d evs (f_half_of k) (s_half_of (j + 1))
             (registerAttempt (f_half_of k @ s_half_of (j + 1)) st1))"
proof -
  have e: "py_zfill 3 (py_str (j + 1)) = s_half_of (j + 1)" by (simp add: s_half_of_def)
  show ?thesis
    using assms by (simp add: py_int_s_half py_int_f_s_half e second_half_pin_def Let_def)
qed

lemma second_half_interrupt:
  assumes "0 \<le> k" "0 \<le> j" "j < 1000"
  shows "second_half_bruteforce decode d (Interrupt p # evs) (f_half_of k) (s_half_of j) st
           = (Raised KeyboardInterrupt, interrupted decode p (second_half_pin k j) st, evs)"
  using assms by (simp add: py_int_s_half py_int_f_s_half second_half_pin_def)

lemma second_half_exhausted:
  "second_half_bruteforce decode d evs f_half (s_half_of 1000) st = (Returned None, st, evs)"
  by (cases evs) (simp_all add: py_int_s_half)

declare second_half_bruteforce.simps [simp del]

lemma second_half_advance:
  assumes "\<forall>i<length fs. rejects2 decode (fs ! i) k (j + int i)" "0 \<le> k" "0 \<le> j"
    and "j + int (length fs) \<le> 1000"
  shows "\<exists>st'. second_half_bruteforce decode d (map Attempt fs @ rest) (f_half_of k) (s_half_of j) st
               = second_half_bruteforce decode d rest (f_half_of k) (s_half_of (j + int (length fs))) st'
           \<and> tried st' = tried st @ map (\<lambda>i. second_half_pin k (j + int i)) [0..<length fs]
           \<and> mask st' = (if fs = [] then mask st else f_half_of k @ s_half_of (j + int (length fs)))
           \<and> session st' = session st \<and> interface st' = interface st"
  using assms
proof (induction fs arbitrary: j st)
  case Nil
  show ?case by (intro exI[of _ st]) simp
next
  case (Cons f fs)
  let ?pin = "second_half_pin k j"
  let ?st1 = "snd (single_connection decode (f ?pin) ?pin st)"
  let ?st2 = "registerAttempt (f_half_of k @ s_half_of (j + 1)) ?st1"
  have k: "0 \<le> k" "0 \<le> j" "j < 1000" using Cons.prems by simp_all
  have "rejects2 decode f k j" using Cons.prems(1) by fastforce
  then have r: "\<not> 6 < last_m_message (conn ?st1)" "status (conn ?st1) \<noteq> ''WPS_FAIL''"
    by (simp_all add: rejects2_def single_connection_facts not_less)
  have step: "second_half_bruteforce decode d (map Attempt (f # fs) @ rest) (f_half_of k) (s_half_of j) st
                = second_half_bruteforce decode d (map Attempt fs @ rest) (f_half_of k) (s_half_of (j + 1)) ?st2"
    using r by (simp add: second_half_step[OF k] Let_def)
  have p1: "\<forall>i<length fs. rejects2 decode (fs ! i) k (j + 1 + int i)"
  proof (intro allI impI)
    fix i assume "i < length fs"
    then have "rejects2 decode ((f # fs) ! Suc i) k (j + int (Suc i))"
      using Cons.prems(1) by (metis length_Cons Suc_less_eq)
    moreover have "j + int (Suc i) = j + 1 + int i" by simp
    ultimately show "rejects2 decode (fs ! i) k (j + 1 + int i)" by (simp only: nth_Cons_Suc)
  qed
  have p2: "0 \<le> j + 1" using k by simp
  have p3: "j + 1 + int (length fs) \<le> 1000" using Cons.prems(4) by simp
  obtain st' where st':
    "second_half_bruteforce decode d (map Attempt fs @ rest) (f_half_of k) (s_half_of (j + 1)) ?st2
       = second_half_bruteforce decode d rest (f_half_of k) (s_half_of (j + 1 + int (length fs))) st'"
    "tried st' = tried ?st2 @ map (\<lambda>i. second_half_pin k (j + 1 + int i)) [0..<length fs]"
    "mask st' = (if fs = [] then mask ?st2 else f_half_of k @ s_half_of (j + 1 + int (length fs)))"
    "session st' = session ?st2" "interface st' = interface ?st2"
    using Cons.IH[OF p1 k(1) p2 p3, of ?st2] by blast
  have e: "j + 1 + int (length fs) = j + int (length (f # fs))" by simp
  have t: "tried st' = tried st @ map (\<lambda>i. second_half_pin k (j + int i)) [0..<length (f # fs)]"
    using st'(2)
    by (simp add: registerAttempt_facts single_connection_facts map_upt_Suc add.assoc
        del: upt_Suc)
  have m: "mask st' = f_half_of k @ s_half_of (j + int (length (f # fs)))"
    using st'(3) unfolding e by (simp add: registerAttempt_facts)
  have s: "session st' = session st" "interface st' = interface st"
    using st'(4,5) by (simp_all add: registerAttempt_facts single_connection_facts)
  show ?case
    using step st'(1) t m s unfolding e by (intro exI[of _ st']) simp
qed

lemma second_half_retry:
  assumes "\<forall>f\<in>set fs. fails2 decode f k j" "0 \<le> k" "0 \<le> j" "j < 1000" "length fs \<le> d"
  shows "\<exists>st'. second_half_bruteforce decode d (map Attempt fs @ rest) (f_half_of k) (s_half_of j) st
               = second_half_bruteforce decode (d - length fs) rest (f_half_of k) (s_half_of j) st'
           \<and> tried st' = tried st @ replicate (length fs) (second_half_pin k j)
           \<and> mask st' = mask st \<and> session st' = session st \<and> interface st' = interface st"
  using assms
proof (induction fs arbitrary: d st)
  case Nil
  show ?case by (intro exI[of _ st]) simp
next
  case (Cons f fs)
  let ?pin = "second_half_pin k j"
  let ?st1 = "snd (single_connection decode (f ?pin) ?pin st)"
  have k: "0 \<le> k" "0 \<le> j" "j < 1000" using Cons.prems by simp_all
  obtain d' where d: "d = Suc d'" "length fs \<le> d'"
    using Cons.prems by (cases d) simp_all
  have "fails2 decode f k j" using Cons.prems(1) by simp
  then have r: "\<not> 6 < last_m_message (conn ?st1)" "status (conn ?st1) = ''WPS_FAIL''"
    by (simp_all add: fails2_def single_connection_facts not_less)
  have step: "second_half_bruteforce decode d (map Attempt (f # fs) @ rest) (f_half_of k) (s_half_of j) st
                = second_half_bruteforce decode d' (map Attempt fs @ rest) (f_half_of k) (s_half_of j) ?st1"
    using r by (simp add: second_half_step[OF k] Let_def d(1))
  have p1: "\<forall>f\<in>set fs. fails2 decode f k j" using Cons.prems(1) by simp
  obtain st' where st':
    "second_half_bruteforce decode d' (map Attempt fs @ rest) (f_half_of k) (s_half_of j) ?st1
       = second_half_bruteforce decode (d' - length fs) rest (f_half_of k) (s_half_of j) st'"
    "tried st' = tried ?st1 @ replicate (length fs) (second_half_pin k j)"
    "mask st' = mask ?st1" "session st' = session ?st1" "interface st' = interface ?st1"
    using Cons.IH[OF p1 k d(2), of ?st1] by blast
  have t: "tried st' = tried st @ replicate (length (f # fs)) (second_half_pin k j)"
    using st'(2) by (simp add: single_connection_facts replicate_app_Cons_same)
  have s: "mask st' = mask st" "session st' = session st" "interface st' = interface st"
    using st'(3,4,5) by (simp_all add: single_connection_facts)
  have e: "d - length (f # fs) = d' - length fs" using d(1) by simp
  show ?case
    using step st'(1) t s unfolding e by (intro exI[of _ st']) simp
qed

lemma second_half_overflow:
  assumes "\<forall>f\<in>set fs. fails2 decode f k j" "0 \<le> k" "0 \<le> j" "j < 1000" "length fs = Suc d"
  shows "\<exists>st'. second_half_bruteforce decode d (map Attempt fs @ rest) (f_half_of k) (s_half_of j) st
               = (Raised RecursionError, st', rest)
           \<and> tried st' = tried st @ replicate (Suc d) (second_half_pin k j)
           \<and> mask st' = mask st \<and> session st' = session st \<and> interface st' = interface st"
proof -
  obtain fs' f where fs: "fs = fs' @ [f]" "length fs' = d"
    using assms by (cases fs rule: rev_cases) simp_all
  have p1: "\<forall>f\<in>set fs'. fails2 decode f k j" using assms(1) fs(1) by simp
  have k: "0 \<le> k" "0 \<le> j" "j < 1000" using assms by simp_all
  have le: "length fs' \<le> d" using fs(2) by simp
  obtain st1 where st1:
    "second_half_bruteforce decode d (map Attempt fs' @ Attempt f # rest) (f_half_of k) (s_half_of j) st
       = second_half_bruteforce decode (d - length fs') (Attempt f # rest) (f_half_of k) (s_half_of j) st1"
    "tried st1 = tried st @ replicate (length fs') (second_half_pin k j)"
    "mask st1 = mask st" "session st1 = session st" "interface st1 = interface st"
    using second_half_retry[OF p1 k le, of "Attempt f # rest" st] by blast
  let ?pin = "second_half_pin k j"
  let ?st2 = "snd (single_connection decode (f ?pin) ?pin st1)"
  have "fails2 decode f k j" using assms(1) fs(1) by simp
  then have r: "\<not> 6 < last_m_message (conn ?st2)" "status (conn ?st2) = ''WPS_FAIL''"
    by (simp_all add: fails2_def single_connection_facts not_less)
  have z: "d - length fs' = 0" using fs(2) by simp
  have step: "second_half_bruteforce decode (d - length fs') (Attempt f # rest) (f_half_of k) (s_half_of j) st1
                = (Raised RecursionError, ?st2, rest)"
    using r unfolding z by (simp add: second_half_step[OF k] Let_def)
  have run: "second_half_bruteforce decode d (map Attempt fs @ rest) (f_half_of k) (s_half_of j) st = (Raised RecursionError, ?st2, rest)"
    using st1(1) step by (simp add: fs(1))
  have t: "tried ?st2 = tried st @ replicate (Suc d) (second_half_pin k j)"
    using st1(2) fs(2) by (simp add: single_connection_facts replicate_append_same)
  have s: "mask ?st2 = mask st" "session ?st2 = session st" "interface ?st2 = interface st"
    using st1(3,4,5) by (simp_all add: single_connection_facts)
  show ?thesis using run t s by (intro exI[of _ ?st2]) simp
qed

section \<open>Simulated control channels\<close>

lemma handle_building_M2:
  "handle_wpas decode (trace_line ''WPS: Building Message M2'') st = (True, set_last_m 2 st)"
  by (simp add: handle_wpas_def wps_line_def message_number_def rstrip_newlines_def newline_def trace_line_def
      py_split_def py_int_def int_strip_def int_space_def digit_value_def remove_char_def Let_def)

lemma handle_received_M3:
  "handle_wpas decode (trace_line ''WPS: Received M3'') st = (True, set_last_m 3 st)"
  by (simp add: handle_wpas_def wps_line_def message_number_def rstrip_newlines_def newline_def trace_line_def
      py_split_def py_int_def int_strip_def int_space_def digit_value_def Let_def)

lemma handle_building_M4:
  "handle_wpas decode (trace_line ''WPS: Building Message M4'') st = (True, set_last_m 4 st)"
  by (simp add: handle_wpas_def wps_line_def message_number_def rstrip_newlines_def newline_def trace_line_def
      py_split_def py_int_def int_strip_def int_space_def digit_value_def remove_char_def Let_def)

lemma handle_received_M7:
  "handle_wpas decode (trace_line ''WPS: Received M7'') st = (True, set_last_m 7 st)"
  by (simp add: handle_wpas_def wps_line_def message_number_def rstrip_newlines_def newline_def trace_line_def
      py_split_def py_int_def int_strip_def int_space_def digit_value_def Let_def)

lemma fromhex_network_key:
  "fromhex (get_hex ''WPS: Network Key - hexdump(len=3): 41 42 43'') = Some ''ABC''"
  by code_simp

lemma handle_network_key:
  "handle_wpas decode (trace_line ''WPS: Network Key - hexdump(len=3): 41 42 43'') st
     = (True, (set_status ''GOT_PSK'' st)\<lparr>conn := (conn (set_status ''GOT_PSK'' st))\<lparr>wpa_psk := ''ABC''\<rparr>\<rparr>)"
  by (simp add: handle_wpas_def wps_line_def rstrip_newlines_def newline_def trace_line_def
      store_network_key_def fromhex_network_key Let_def)


lemma outcome_rejected:
  "outcome decode st (''OK'', rejected_trace)
     = \<lparr>status = ''WSC_NACK'', last_m_message = 4, essid = [], wpa_psk = []\<rparr>"
  by (simp add: outcome_def wps_connection_def rejected_trace_def handle_building_M2 handle_received_M3
      handle_building_M4 handle_received_nack set_last_m_def set_status_def ConnectionStatus_def)

lemma outcome_half_valid:
  "outcome decode st (''OK'', half_valid_trace)
     = \<lparr>status = ''WSC_NACK'', last_m_message = 6, essid = [], wpa_psk = []\<rparr>"
  by (simp add: outcome_def wps_connection_def half_valid_trace_def handle_building_M2 handle_received_M3
      handle_building_M4 handle_received_M5 handle_building_M6 handle_received_nack
      set_last_m_def set_status_def ConnectionStatus_def)

lemma outcome_accepted:
  "outcome decode st (''OK'', accepted_trace)
     = \<lparr>status = ''GOT_PSK'', last_m_message = 7, essid = [], wpa_psk = ''ABC''\<rparr>"
  by (simp add: outcome_def wps_connection_def accepted_trace_def handle_building_M2 handle_received_M3
      handle_building_M4 handle_received_M5 handle_building_M6 handle_received_M7 handle_network_key
      set_last_m_def set_status_def ConnectionStatus_def)

lemma outcome_failing:
  "outcome decode st (failing_channel pin)
     = \<lparr>status = ''WPS_FAIL'', last_m_message = 0, essid = [], wpa_psk = []\<rparr>"
  by (simp add: outcome_def wps_connection_def failing_channel_def set_status_def ConnectionStatus_def)

lemma outcome_key_only:
  "outcome decode st (key_only_channel pin)
     = \<lparr>status = ''GOT_PSK'', last_m_message = 0, essid = [], wpa_psk = ''ABC''\<rparr>"
  by (simp add: outcome_def wps_connection_def key_only_channel_def handle_network_key
      set_status_def ConnectionStatus_def)

lemma failing_channel_fails1: "fails1 decode failing_channel k"
  by (simp add: fails1_def outcome_failing isFirstHalfValid_def)

lemma failing_channel_fails2: "fails2 decode failing_channel k j"
  by (simp add: fails2_def outcome_failing)

lemma key_only_channel_rejects2: "rejects2 decode key_only_channel k j"
  by (simp add: rejects2_def outcome_key_only)

lemma f_half_1234: "f_half_of 1234 = ''1234''"
  by code_simp

lemma f_half_0: "f_half_of 0 = ''0000''"
  by code_simp

lemma f_half_inj:
  assumes "0 \<le> k" "0 \<le> l" "f_half_of k = f_half_of l"
  shows "k = l"
proof -
  have "Some k = py_int 10 (f_half_of k)" using assms(1) by (simp only: py_int_f_half)
  also have "\<dots> = py_int 10 (f_half_of l)" by (simp only: assms(3))
  also have "\<dots> = Some l" using assms(2) by (simp only: py_int_f_half)
  finally show ?thesis by simp
qed

lemma s_half_inj:
  assumes "0 \<le> k" "0 \<le> l" "s_half_of k = s_half_of l"
  shows "k = l"
proof -
  have "Some k = py_int 10 (s_half_of k)" using assms(1) by (simp only: py_int_s_half)
  also have "\<dots> = py_int 10 (s_half_of l)" by (simp only: assms(3))
  also have "\<dots> = Some l" using assms(2) by (simp only: py_int_s_half)
  finally show ?thesis by simp
qed

lemma s_half_567: "s_half_of 567 = ''567''"
  by code_simp

lemma take_first_half_pin: "0 \<le> k \<Longrightarrow> k < 10000 \<Longrightarrow> take 4 (first_half_pin k) = f_half_of k"
  by (simp add: first_half_pin_def length_f_half)

lemma take_second_half_pin: "0 \<le> k \<Longrightarrow> k < 10000 \<Longrightarrow> take 4 (second_half_pin k j) = f_half_of k"
  by (simp add: second_half_pin_def length_f_half)

lemma middle_second_half_pin:
  "0 \<le> k \<Longrightarrow> k < 10000 \<Longrightarrow> 0 \<le> j \<Longrightarrow> j < 1000 \<Longrightarrow> take 3 (drop 4 (second_half_pin k j)) = s_half_of j"
  by (simp add: second_half_pin_def length_f_half length_s_half)

lemma simulated_rejects1:
  assumes "0 \<le> k" "k < 10000" "k \<noteq> 1234"
  shows "rejects1 decode (simulated_channel ''12345670'') k"
proof -
  have "f_half_of k \<noteq> ''1234''"
    using f_half_inj[of k 1234] assms by (auto simp: f_half_1234)
  then have "simulated_channel ''12345670'' (first_half_pin k) = (''OK'', rejected_trace)"
    using assms by (simp add: simulated_channel_def take_first_half_pin)
  then show ?thesis by (simp add: rejects1_def outcome_rejected isFirstHalfValid_def)
qed

lemma first_half_pin_1234: "first_half_pin 1234 = ''12340002''"
  by code_simp

lemma second_half_pin_1234_567: "second_half_pin 1234 567 = ''12345670''"
  by code_simp

lemma simulated_accepts1: "accepts1 decode (simulated_channel ''12345670'') 1234"
proof -
  have "simulated_channel ''12345670'' (first_half_pin 1234) = (''OK'', half_valid_trace)"
    by (simp add: simulated_channel_def first_half_pin_1234)
  then show ?thesis by (simp add: accepts1_def outcome_half_valid isFirstHalfValid_def)
qed

lemma simulated_rejects2:
  assumes "0 \<le> j" "j < 1000" "j \<noteq> 567"
  shows "rejects2 decode (simulated_channel ''12345670'') 1234 j"
proof -
  have "s_half_of j \<noteq> ''567''"
    using s_half_inj[of j 567] assms by (auto simp: s_half_567)
  then have "take 3 (drop 4 (second_half_pin 1234 j)) \<noteq> take 3 (drop 4 ''12345670'')"
    using assms by (simp add: middle_second_half_pin)
  then have ne: "second_half_pin 1234 j \<noteq> ''12345670''" by auto
  have "take 4 (second_half_pin 1234 j) = ''1234''"
    by (simp add: take_second_half_pin f_half_1234)
  then have "simulated_channel ''12345670'' (second_half_pin 1234 j) = (''OK'', half_valid_trace)"
    using ne by (simp add: simulated_channel_def)
  then show ?thesis by (simp add: rejects2_def outcome_half_valid)
qed

lemma simulated_accepts2: "accepts2 decode (simulated_channel ''12345670'') 1234 567"
proof -
  have "simulated_channel ''12345670'' (second_half_pin 1234 567) = (''OK'', accepted_trace)"
    by (simp add: simulated_channel_def second_half_pin_1234_567)
  then show ?thesis by (simp add: accepts2_def outcome_accepted)
qed

section \<open>Runs of smart_bruteforce through phase 1\<close>

lemma map_int_upt: "map int [0..<n] = [0..int n - 1]"
proof (induction n)
  case 0
  show ?case by simp
next
  case (Suc n)
  have "[0..int (Suc n) - 1] = [0..int n]" by simp
  also have "\<dots> = [0..int n - 1] @ [int n]" using upto_rec2[of 0 "int n"] by simp
  finally show ?case using Suc by simp
qed

lemma map_upt_upto: "map (\<lambda>i. g (int i)) [0..<n] = map g [0..int n - 1]"
proof -
  have "map (\<lambda>i. g (int i)) [0..<n] = map g (map int [0..<n])" by (simp add: comp_def)
  then show ?thesis by (simp only: map_int_upt)
qed

lemma choose_mask_start: "choose_mask ''0000'' restore st = ''0000''"
  by (simp add: choose_mask_def)





lemma smart_first_half:
  assumes "choose_mask start_pin restore st = f_half_of k" "0 \<le> k" "k < 10000"
  shows "smart_bruteforce decode d loop evs start_pin restore st =
     (case first_half_bruteforce decode d evs (f_half_of k) (st\<lparr>mask := f_half_of k\<rparr>) of
        (Returned (Some f_half), st1, evs1) \<Rightarrow>
          if f_half \<noteq> [] \<and> status (conn st1) \<noteq> ''GOT_PSK''
          then after_phase loop (second_half_bruteforce decode d evs1 f_half ''001'' st1)
          else save_session loop (st1, evs1)
      | r \<Rightarrow> after_phase loop r)"
  by (simp add: smart_bruteforce_def assms length_f_half Let_def)

lemma found_first_half:
  assumes "choose_mask start_pin restore st = f_half_of k" "0 \<le> k"
    and "\<forall>i<length fs. rejects1 decode (fs ! i) (k + int i)"
    and "k + int (length fs) < 10000"
    and "accepts1 decode f (k + int (length fs))"
  shows "\<exists>st1. smart_bruteforce decode d loop (map Attempt fs @ Attempt f # rest) start_pin restore st
               = after_phase loop (second_half_bruteforce decode d rest
                                     (f_half_of (k + int (length fs))) ''001'' st1)
           \<and> tried st1 = tried st @ map (\<lambda>i. first_half_pin (k + int i)) [0..<Suc (length fs)]
           \<and> mask st1 = f_half_of (k + int (length fs))"
proof -
  let ?st0 = "st\<lparr>mask := f_half_of k\<rparr>"
  let ?m = "k + int (length fs)"
  have le: "k + int (length fs) \<le> 10000" using assms(4) by simp
  have k: "k < 10000" using assms(4) by simp
  obtain st' where st':
    "first_half_bruteforce decode d (map Attempt fs @ Attempt f # rest) (f_half_of k) ?st0
       = first_half_bruteforce decode d (Attempt f # rest) (f_half_of ?m) st'"
    "tried st' = tried ?st0 @ map (\<lambda>i. first_half_pin (k + int i)) [0..<length fs]"
    "mask st' = (if fs = [] then mask ?st0 else f_half_of ?m)"
    using first_half_advance[OF assms(3) assms(2) le, of d "Attempt f # rest" ?st0] by blast
  let ?pin = "first_half_pin ?m"
  let ?st1 = "snd (single_connection decode (f ?pin) ?pin st')"
  have m: "0 \<le> ?m" using assms(2) by simp
  have r: "isFirstHalfValid (conn ?st1)" "status (conn ?st1) \<noteq> ''GOT_PSK''"
    using assms(5) by (simp_all add: accepts1_def single_connection_facts)
  have step: "first_half_bruteforce decode d (Attempt f # rest) (f_half_of ?m) st'
                = (Returned (Some (f_half_of ?m)), ?st1, rest)"
    using r by (simp add: first_half_step[OF m assms(4)] Let_def)
  have ne: "f_half_of ?m \<noteq> []" by (simp add: f_half_of_def zfill_str_nonempty)
  have run: "smart_bruteforce decode d loop (map Attempt fs @ Attempt f # rest) start_pin restore st
               = after_phase loop (second_half_bruteforce decode d rest (f_half_of ?m) ''001'' ?st1)"
    using r(2) ne by (simp add: smart_first_half[OF assms(1) assms(2) k] st'(1) step)
  have t: "tried ?st1 = tried st @ map (\<lambda>i. first_half_pin (k + int i)) [0..<Suc (length fs)]"
    using st'(2) by (simp add: single_connection_facts)
  have mk: "mask ?st1 = f_half_of ?m"
    using st'(3) by (cases "fs = []") (simp_all add: single_connection_facts)
  show ?thesis using run t mk by (intro exI[of _ ?st1]) simp
qed



lemma attempts_replicate:
  "map Attempt (replicate n ch) @ Attempt ch # rest = replicate (Suc n) (Attempt ch) @ rest"
  by (induction n) simp_all

lemma found_first_half_from_0000:
  assumes "list_all (rejects1 decode ch) [0..int n - 1]" "accepts1 decode ch (int n)" "int n < 10000"
  shows "\<exists>st1. smart_bruteforce decode d loop (replicate (Suc n) (Attempt ch) @ rest) ''0000'' restore st
               = after_phase loop (second_half_bruteforce decode d rest (f_half_of (int n)) ''001'' st1)
           \<and> tried st1 = tried st @ map first_half_pin [0..int n]
           \<and> length (tried st1) = length (tried st) + Suc n
           \<and> mask st1 = f_half_of (int n)"
proof -
  let ?fs = "replicate n ch"
  have c: "choose_mask ''0000'' restore st = f_half_of 0" by (simp add: choose_mask_start f_half_0)
  have h: "\<forall>i<length ?fs. rejects1 decode (?fs ! i) (0 + int i)"
  proof (intro allI impI)
    fix i assume "i < length ?fs"
    then have i: "i < n" by simp
    then have "int i \<in> set [0..int n - 1]" by simp
    then have "rejects1 decode ch (int i)" using assms(1) unfolding list_all_iff by blast
    then show "rejects1 decode (?fs ! i) (0 + int i)" using i by simp
  qed
  have l: "0 + int (length ?fs) < 10000" using assms(3) by simp
  have a: "accepts1 decode ch (0 + int (length ?fs))" using assms(2) by simp
  have z: "(0::int) \<le> 0" by simp
  obtain st1 where st1:
    "smart_bruteforce decode d loop (map Attempt ?fs @ Attempt ch # rest) ''0000'' restore st
       = after_phase loop (second_half_bruteforce decode d rest (f_half_of (0 + int (length ?fs))) ''001'' st1)"
    "tried st1 = tried st @ map (\<lambda>i. first_half_pin (0 + int i)) [0..<Suc (length ?fs)]"
    "mask st1 = f_half_of (0 + int (length ?fs))"
    using found_first_half[OF c z h l a, where d = d and loop = loop and rest = rest] by blast
  have e: "map (\<lambda>i. first_half_pin (0 + int i)) [0..<Suc (length ?fs)] = map first_half_pin [0..int n]"
    using map_upt_upto[of first_half_pin "Suc n"] by simp
  have t: "tried st1 = tried st @ map first_half_pin [0..int n]" using st1(2) by (simp only: e)
  have len: "length (tried st1) = length (tried st) + Suc n" using st1(2) by simp
  have run: "smart_bruteforce decode d loop (replicate (Suc n) (Attempt ch) @ rest) ''0000'' restore st
       = after_phase loop (second_half_bruteforce decode d rest (f_half_of (int n)) ''001'' st1)"
    using st1(1) by (simp only: attempts_replicate length_replicate add.left_neutral)
  have mk: "mask st1 = f_half_of (int n)" using st1(3) by simp
  show ?thesis using run t len mk by (intro exI[of _ st1]) (simp del: replicate.simps)
qed


section \<open>C6: parsing MAC text\<close>

text \<open>
  C6 (the code at the failing inputs). A well-formed MAC written with dashes or dots is
  normalised and passes the format check, and then the constructor raises ValueError,
  because the integer is parsed from the text as given. A colon-separated MAC followed by
  a newline is accepted.
\<close>

theorem NetworkAddress_dash_delimited_raises:
  "NetworkAddress (MacStr ''00-11-22-33-44-55'') = Inl ValueError \<and>
   NetworkAddress (MacStr ''00.11.22.33.44.55'') = Inl ValueError \<and>
   is_valid_mac (py_upper (replace_char CHR ''.'' CHR '':'' (replace_char CHR ''-'' CHR '':'' ''00-11-22-33-44-55''))) \<and>
   NetworkAddress (MacStr ''00:11:22:33:44:55'') = Inr \<lparr>int_repr = 0x1122334455, str_repr = ''00:11:22:33:44:55''\<rparr> \<and>
   NetworkAddress (MacStr (''00:11:22:33:44:55'' @ [CHR 0x0A]))
     = Inr \<lparr>int_repr = 0x1122334455, str_repr = ''00:11:22:33:44:55'' @ [CHR 0x0A]\<rparr>"
  by code_simp

section \<open>C7: unknown algorithm ids\<close>

text \<open>
  C7 (as amended). For an algorithm id that is not a key of the registry, whatever the MAC
  argument, \<^verbatim>\<open>generate\<close> returns \<^verbatim>\<open>None\<close> as an ordinary return value: the
  ValueError raised for the unknown id is caught by the function's own handler.
\<close>

theorem generate_unknown_algorithm_returns_None:
  "map_of algos algo = None \<Longrightarrow> generate algo mac = Inr None"
  by (simp add: generate_def generate_try_def split: sum.splits)

theorem generate_unknown_algorithm_returns_None_witness:
  "map_of algos ''pinNetgear'' = None \<and> generate ''pinNetgear'' (MacInt 5) = Inr None"
proof -
  have h: "map_of algos ''pinNetgear'' = None" by (simp add: algos_def)
  show ?thesis using h generate_unknown_algorithm_returns_None[OF h, of "MacInt 5"] by simp
qed

theorem generate_unknown_algorithm_counterexample:
  "map_of algos ''pinUnknown'' = None \<and>
   generate ''pinUnknown'' (MacStr ''00:11:22:33:44:55'') = Inr None \<and>
   generate ''pinUnknown'' (MacStr ''00:11:22:33:44:55'') \<noteq> Inl ValueError"
  by (simp add: algos_def generate_def generate_try_def split: sum.splits)

section \<open>C10: integers beyond 48 bits\<close>

text \<open>
  C10. For an integer \<open>m\<close> with \<open>2^48 \<le> m < 2^52\<close> the constructor keeps \<open>m\<close> as the
  integer form, while the text form is built from the first 12 of the 13 hexadecimal digits
  of \<open>m\<close>; parsing the text form back gives \<open>m div 16\<close>, which differs from \<open>m\<close>.
\<close>

theorem int2mac_drops_last_digit_beyond_48_bits:
  assumes lo: "2 ^ 48 \<le> m" and hi: "m < 2 ^ 52"
  shows "NetworkAddress (MacInt m) = Inr \<lparr>int_repr = m, str_repr = int2mac m\<rparr> \<and>
         length (digits_of 16 m) = 13 \<and>
         remove_char CHR '':'' (int2mac m) = py_upper (take 12 (digits_of 16 m)) \<and>
         mac2int (int2mac m) = Inr (m div 16) \<and>
         m div 16 \<noteq> m"
proof -
  have m0: "0 \<le> m" using lo by simp
  have len: "length (digits_of 16 m) = Suc 12"
    using lo hi by (intro length_digits_of) simp_all
  have q0: "0 \<le> m div 16" using m0 by simp
  have qlen: "length (digits_of 16 (m div 16)) = Suc 11"
    using lo hi by (intro length_digits_of) simp_all
  have step: "digits_of 16 m = digits_of 16 (m div 16) @ [digit_char (nat (m mod 16))]"
    using lo by (intro digits_of_step) simp_all
  have t12: "take 12 (digits_of 16 m) = digits_of 16 (m div 16)"
    using qlen by (simp add: step)
  let ?U = "py_upper (digits_of 16 m)"
  have z: "py_zfill 12 ?U = ?U" using len by (simp add: py_zfill_def py_upper_def)
  have nc: "CHR '':'' \<notin> set ?U"
    using upper_digits_digit_in[OF m0] digit_in_not_special by blast
  have rm: "remove_char CHR '':'' (int2mac m) = take 12 ?U"
    by (simp only: int2mac_nonneg[OF m0] z remove_colon_join[OF nc])
  have tu: "take 12 ?U = py_upper (digits_of 16 (m div 16))"
    by (simp add: py_upper_def take_map t12)
  have nc2: "CHR '':'' \<notin> set (py_upper (digits_of 16 (m div 16)))"
    using upper_digits_digit_in[OF q0] digit_in_not_special by blast
  have "mac2int (int2mac m) = mac2int (py_upper (digits_of 16 (m div 16)))"
    by (rule mac2int_cong) (simp add: rm tu remove_char_id[OF nc2])
  then have rt: "mac2int (int2mac m) = Inr (m div 16)"
    by (simp add: mac2int_upper_digits[OF q0])
  have ne: "m div 16 \<noteq> m" using lo by simp
  show ?thesis
    using len rm tu t12 rt ne by (simp add: NetworkAddress_def py_upper_def)
qed

theorem int2mac_drops_last_digit_beyond_48_bits_witness:
  "(2::int) ^ 48 \<le> 281474976710656 \<and> (281474976710656::int) < 2 ^ 52 \<and>
   NetworkAddress (MacStr ''FF:FF:FF:FF:FF:FF'') = Inr \<lparr>int_repr = 281474976710655, str_repr = ''FF:FF:FF:FF:FF:FF''\<rparr> \<and>
   iadd \<lparr>int_repr = 281474976710655, str_repr = ''FF:FF:FF:FF:FF:FF''\<rparr> 1
     = \<lparr>int_repr = 281474976710656, str_repr = ''10:00:00:00:00:00''\<rparr> \<and>
   NetworkAddress (MacInt 281474976710656)
     = Inr \<lparr>int_repr = 281474976710656, str_repr = int2mac 281474976710656\<rparr> \<and>
   mac2int (int2mac 281474976710656) = Inr (281474976710656 div 16) \<and>
   (281474976710656::int) div 16 \<noteq> 281474976710656"
proof -
  have lo: "(2::int) ^ 48 \<le> 281474976710656" by simp
  have hi: "(281474976710656::int) < 2 ^ 52" by simp
  have a: "NetworkAddress (MacStr ''FF:FF:FF:FF:FF:FF'')
             = Inr \<lparr>int_repr = 281474976710655, str_repr = ''FF:FF:FF:FF:FF:FF''\<rparr>"
    by code_simp
  have b: "iadd \<lparr>int_repr = 281474976710655, str_repr = ''FF:FF:FF:FF:FF:FF''\<rparr> 1
             = \<lparr>int_repr = 281474976710656, str_repr = ''10:00:00:00:00:00''\<rparr>"
    by code_simp
  show ?thesis
    using int2mac_drops_last_digit_beyond_48_bits[OF lo hi] lo hi a b by simp
qed

section \<open>C2: the first half found at 1234\<close>

text \<open>
  C2. Let the answers of the control channel be such that the attempts on the first-half
  candidates 0 to 1233 end without first-half validity (and without \<^verbatim>\<open>WPS_FAIL\<close>, so
  that no attempt is repeated) and the attempt on candidate 1234 ends with first-half
  validity (and without the passphrase). Then \<^verbatim>\<open>smart_bruteforce\<close>, started with the PIN \<^verbatim>\<open>0000\<close>, makes exactly
  1235 attempts in phase 1, on the candidates 0000 to 1234 in increasing order, each PIN
  being the first half, \<^verbatim>\<open>000\<close> and the checksum of first half times 1000; it then goes
  on with phase 2 for the first half \<^verbatim>\<open>1234\<close> from the second half \<^verbatim>\<open>001\<close>, the mask
  being \<^verbatim>\<open>1234\<close>.
\<close>

theorem first_half_1234_found_after_1235_attempts:
  assumes "list_all (rejects1 decode ch) [0..1233]" and "accepts1 decode ch 1234"
  shows "\<exists>st1. smart_bruteforce decode d loop (replicate 1235 (Attempt ch) @ rest) ''0000'' restore st
               = after_phase loop (second_half_bruteforce decode d rest ''1234'' ''001'' st1)
           \<and> tried st1 = tried st @ map first_half_pin [0..1234]
           \<and> length (tried st1) = length (tried st) + 1235
           \<and> mask st1 = ''1234''"
proof -
  have n: "int 1234 = 1234" "Suc 1234 = 1235" by simp_all
  have a: "list_all (rejects1 decode ch) [0..int 1234 - 1]" using assms(1) by simp
  have b: "accepts1 decode ch (int 1234)" using assms(2) by (simp only: n)
  have c: "int 1234 < 10000" by simp
  show ?thesis
    using found_first_half_from_0000[OF a b c, where d = d and loop = loop and rest = rest
        and restore = restore and st = st]
    by (simp only: n f_half_1234)
qed


theorem first_half_1234_found_after_1235_attempts_witness:
  "list_all (rejects1 Some (simulated_channel ''12345670'')) [0..1233] \<and>
   accepts1 Some (simulated_channel ''12345670'') 1234 \<and>
   (\<exists>st1. smart_bruteforce Some 989 False
             (replicate 1235 (Attempt (simulated_channel ''12345670'')) @ [Interrupt None]) ''0000'' False idle
           = after_phase False (second_half_bruteforce Some 989 [Interrupt None] ''1234'' ''001'' st1)
       \<and> tried st1 = tried idle @ map first_half_pin [0..1234]
       \<and> length (tried st1) = length (tried idle) + 1235
       \<and> mask st1 = ''1234'')"
proof -
  have r: "list_all (rejects1 Some (simulated_channel ''12345670'')) [0..1233]"
    by (auto simp: list_all_iff intro!: simulated_rejects1)
  have a: "accepts1 Some (simulated_channel ''12345670'') 1234" by (rule simulated_accepts1)
  show ?thesis
    by (rule conjI[OF r conjI[OF a
          first_half_1234_found_after_1235_attempts[OF r a, where d = 989 and loop = False
            and rest = "[Interrupt None]" and restore = False and st = idle]]])
qed

section \<open>C5: attempts that end with WPS_FAIL\<close>

text \<open>
  C5 (as amended). Each phase tests its success first (first-half validity in phase 1, a
  last message number above 6 in phase 2) and \<^verbatim>\<open>WPS_FAIL\<close> after it. An attempt that ends
  with \<^verbatim>\<open>WPS_FAIL\<close> and without that success is followed by another attempt on the same
  candidate, made by a call of the phase inside itself, and so again for as long as the
  attempts end in this way: there is no counter. When \<open>length fs\<close> attempts have failed so
  and one more ends without \<^verbatim>\<open>WPS_FAIL\<close> and without success, the candidate has been
  tried \<open>length fs + 1\<close> times and the engine advances to the next one. The only bound is
  the depth of calls that the interpreter allows: with \<open>d\<close> nested calls left, the failing
  attempt number \<open>d + 1\<close> ends the phase with \<^verbatim>\<open>RecursionError\<close>, which
  \<^verbatim>\<open>smart_bruteforce\<close> logs, returning without having written the session file.
\<close>

theorem wps_fail_retry_is_a_nested_call:
  assumes "0 \<le> k" "k < 10000" "0 \<le> j" "j < 1000"
    and "\<forall>f\<in>set fs1. fails1 decode f k"
    and "\<forall>f\<in>set fs2. fails2 decode f k j"
  shows "(length fs1 \<le> d \<and> rejects1 decode g1 k \<longrightarrow>
            (\<exists>st'. first_half_bruteforce decode d (map Attempt fs1 @ Attempt g1 # rest) (f_half_of k) st
                 = first_half_bruteforce decode (d - length fs1) rest (f_half_of (k + 1)) st'
             \<and> tried st' = tried st @ replicate (Suc (length fs1)) (first_half_pin k)
             \<and> mask st' = f_half_of (k + 1))) \<and>
         (length fs1 = Suc d \<longrightarrow>
            (\<exists>st'. first_half_bruteforce decode d (map Attempt fs1 @ rest) (f_half_of k) st = (Raised RecursionError, st', rest)
             \<and> after_phase loop (Raised RecursionError, st', rest) = (Returned (), st', rest)
             \<and> tried st' = tried st @ replicate (Suc d) (first_half_pin k)
             \<and> session st' = session st)) \<and>
         (length fs2 \<le> d \<and> rejects2 decode g2 k j \<longrightarrow>
            (\<exists>st'. second_half_bruteforce decode d (map Attempt fs2 @ Attempt g2 # rest) (f_half_of k) (s_half_of j) st
                 = second_half_bruteforce decode (d - length fs2) rest (f_half_of k) (s_half_of (j + 1)) st'
             \<and> tried st' = tried st @ replicate (Suc (length fs2)) (second_half_pin k j)
             \<and> mask st' = f_half_of k @ s_half_of (j + 1))) \<and>
         (length fs2 = Suc d \<longrightarrow>
            (\<exists>st'. second_half_bruteforce decode d (map Attempt fs2 @ rest) (f_half_of k) (s_half_of j) st = (Raised RecursionError, st', rest)
             \<and> after_phase loop (Raised RecursionError, st', rest) = (Returned (), st', rest)
             \<and> tried st' = tried st @ replicate (Suc d) (second_half_pin k j)
             \<and> session st' = session st))"
proof (intro conjI impI)
  assume a: "length fs1 \<le> d \<and> rejects1 decode g1 k"
  obtain st1 where st1:
    "first_half_bruteforce decode d (map Attempt fs1 @ Attempt g1 # rest) (f_half_of k) st
       = first_half_bruteforce decode (d - length fs1) (Attempt g1 # rest) (f_half_of k) st1"
    "tried st1 = tried st @ replicate (length fs1) (first_half_pin k)"
    using first_half_retry[OF assms(5) assms(1) assms(2), of d "Attempt g1 # rest" st] a by blast
  let ?pin = "first_half_pin k"
  let ?st2 = "snd (single_connection decode (g1 ?pin) ?pin st1)"
  let ?st3 = "registerAttempt (f_half_of (k + 1)) ?st2"
  have r: "\<not> isFirstHalfValid (conn ?st2)" "status (conn ?st2) \<noteq> ''WPS_FAIL''"
    using a by (simp_all add: rejects1_def single_connection_facts not_less)
  have step: "first_half_bruteforce decode (d - length fs1) (Attempt g1 # rest) (f_half_of k) st1
                = first_half_bruteforce decode (d - length fs1) rest (f_half_of (k + 1)) ?st3"
    using r by (simp add: first_half_step[OF assms(1) assms(2)] Let_def)
  have t: "tried ?st3 = tried st @ replicate (Suc (length fs1)) (first_half_pin k)"
    using st1(2) by (simp add: registerAttempt_facts single_connection_facts replicate_append_same)
  have m: "mask ?st3 = f_half_of (k + 1)" by (simp add: registerAttempt_facts)
  show "\<exists>st'. first_half_bruteforce decode d (map Attempt fs1 @ Attempt g1 # rest) (f_half_of k) st
                 = first_half_bruteforce decode (d - length fs1) rest (f_half_of (k + 1)) st'
             \<and> tried st' = tried st @ replicate (Suc (length fs1)) (first_half_pin k)
             \<and> mask st' = f_half_of (k + 1)"
    using st1(1) step t m by (intro exI[of _ ?st3]) simp
next
  assume a: "length fs1 = Suc d"
  obtain st' where st':
    "first_half_bruteforce decode d (map Attempt fs1 @ rest) (f_half_of k) st = (Raised RecursionError, st', rest)"
    "tried st' = tried st @ replicate (Suc d) (first_half_pin k)" "session st' = session st"
    using first_half_overflow[OF assms(5) assms(1) assms(2) a, of rest st] by blast
  have h: "after_phase loop (Raised RecursionError, st', rest) = (Returned (), st', rest)"
    by (simp add: after_phase_def)
  show "\<exists>st'. first_half_bruteforce decode d (map Attempt fs1 @ rest) (f_half_of k) st = (Raised RecursionError, st', rest)
             \<and> after_phase loop (Raised RecursionError, st', rest) = (Returned (), st', rest)
             \<and> tried st' = tried st @ replicate (Suc d) (first_half_pin k)
             \<and> session st' = session st"
    using st' h by (intro exI[of _ st']) simp
next
  assume a: "length fs2 \<le> d \<and> rejects2 decode g2 k j"
  obtain st1 where st1:
    "second_half_bruteforce decode d (map Attempt fs2 @ Attempt g2 # rest) (f_half_of k) (s_half_of j) st
       = second_half_bruteforce decode (d - length fs2) (Attempt g2 # rest) (f_half_of k) (s_half_of j) st1"
    "tried st1 = tried st @ replicate (length fs2) (second_half_pin k j)"
    using second_half_retry[OF assms(6) assms(1) assms(3) assms(4), of d "Attempt g2 # rest" st] a by blast
  let ?pin = "second_half_pin k j"
  let ?st2 = "snd (single_connection decode (g2 ?pin) ?pin st1)"
  let ?st3 = "registerAttempt (f_half_of k @ s_half_of (j + 1)) ?st2"
  have r: "\<not> 6 < last_m_message (conn ?st2)" "status (conn ?st2) \<noteq> ''WPS_FAIL''"
    using a by (simp_all add: rejects2_def single_connection_facts not_less)
  have step: "second_half_bruteforce decode (d - length fs2) (Attempt g2 # rest) (f_half_of k) (s_half_of j) st1
                = second_half_bruteforce decode (d - length fs2) rest (f_half_of k) (s_half_of (j + 1)) ?st3"
    using r by (simp add: second_half_step[OF assms(1) assms(3) assms(4)] Let_def)
  have t: "tried ?st3 = tried st @ replicate (Suc (length fs2)) (second_half_pin k j)"
    using st1(2) by (simp add: registerAttempt_facts single_connection_facts replicate_append_same)
  have m: "mask ?st3 = f_half_of k @ s_half_of (j + 1)" by (simp add: registerAttempt_facts)
  show "\<exists>st'. second_half_bruteforce decode d (map Attempt fs2 @ Attempt g2 # rest) (f_half_of k) (s_half_of j) st
                 = second_half_bruteforce decode (d - length fs2) rest (f_half_of k) (s_half_of (j + 1)) st'
             \<and> tried st' = tried st @ replicate (Suc (length fs2)) (second_half_pin k j)
             \<and> mask st' = f_half_of k @ s_half_of (j + 1)"
    using st1(1) step t m by (intro exI[of _ ?st3]) simp
next
  assume a: "length fs2 = Suc d"
  obtain st' where st':
    "second_half_bruteforce decode d (map Attempt fs2 @ rest) (f_half_of k) (s_half_of j) st = (Raised RecursionError, st', rest)"
    "tried st' = tried st @ replicate (Suc d) (second_half_pin k j)" "session st' = session st"
    using second_half_overflow[OF assms(6) assms(1) assms(3) assms(4) a, of rest st] by blast
  have h: "after_phase loop (Raised RecursionError, st', rest) = (Returned (), st', rest)"
    by (simp add: after_phase_def)
  show "\<exists>st'. second_half_bruteforce decode d (map Attempt fs2 @ rest) (f_half_of k) (s_half_of j) st = (Raised RecursionError, st', rest)
             \<and> after_phase loop (Raised RecursionError, st', rest) = (Returned (), st', rest)
             \<and> tried st' = tried st @ replicate (Suc d) (second_half_pin k j)
             \<and> session st' = session st"
    using st' h by (intro exI[of _ st']) simp
qed


theorem wps_fail_retry_is_a_nested_call_witness:
  "(\<exists>st'. first_half_bruteforce Some 3
            [Attempt failing_channel, Attempt failing_channel, Attempt failing_channel,
             Attempt (simulated_channel ''12345670''), Interrupt None] (f_half_of 0) idle
          = first_half_bruteforce Some 0 [Interrupt None] (f_half_of 1) st'
      \<and> tried st' = [first_half_pin 0, first_half_pin 0, first_half_pin 0, first_half_pin 0]
      \<and> mask st' = f_half_of 1) \<and>
   (\<exists>st'. first_half_bruteforce Some 3
            [Attempt failing_channel, Attempt failing_channel, Attempt failing_channel,
             Attempt failing_channel, Interrupt None] (f_half_of 0) idle
          = (Raised RecursionError, st', [Interrupt None])
      \<and> after_phase False (Raised RecursionError, st', [Interrupt None]) = (Returned (), st', [Interrupt None])
      \<and> tried st' = [first_half_pin 0, first_half_pin 0, first_half_pin 0, first_half_pin 0]
      \<and> session st' = None) \<and>
   (\<exists>st'. second_half_bruteforce Some 3
            [Attempt failing_channel, Attempt failing_channel, Attempt failing_channel,
             Attempt key_only_channel, Interrupt None] (f_half_of 0) (s_half_of 1) idle
          = second_half_bruteforce Some 0 [Interrupt None] (f_half_of 0) (s_half_of 2) st'
      \<and> tried st' = [second_half_pin 0 1, second_half_pin 0 1, second_half_pin 0 1, second_half_pin 0 1]
      \<and> mask st' = f_half_of 0 @ s_half_of 2) \<and>
   (\<exists>st'. second_half_bruteforce Some 3
            [Attempt failing_channel, Attempt failing_channel, Attempt failing_channel,
             Attempt failing_channel, Interrupt None] (f_half_of 0) (s_half_of 1) idle
          = (Raised RecursionError, st', [Interrupt None])
      \<and> after_phase False (Raised RecursionError, st', [Interrupt None]) = (Returned (), st', [Interrupt None])
      \<and> tried st' = [second_half_pin 0 1, second_half_pin 0 1, second_half_pin 0 1, second_half_pin 0 1]
      \<and> session st' = None)"
  using wps_fail_retry_is_a_nested_call
    [where k = 0 and j = 1 and decode = Some and d = 3 and loop = False and st = idle
       and rest = "[Interrupt None]"
       and ?fs1.0 = "[failing_channel, failing_channel, failing_channel]"
       and ?fs2.0 = "[failing_channel, failing_channel, failing_channel]"
       and ?g1.0 = "simulated_channel ''12345670''" and ?g2.0 = key_only_channel]
    wps_fail_retry_is_a_nested_call
    [where k = 0 and j = 1 and decode = Some and d = 3 and loop = False and st = idle
       and rest = "[Interrupt None]"
       and ?fs1.0 = "[failing_channel, failing_channel, failing_channel, failing_channel]"
       and ?fs2.0 = "[failing_channel, failing_channel, failing_channel, failing_channel]"
       and ?g1.0 = "simulated_channel ''12345670''" and ?g2.0 = key_only_channel]
    failing_channel_fails1 failing_channel_fails2 simulated_rejects1[of 0] key_only_channel_rejects2
  by (simp add: idle_def numeral_3_eq_3)

theorem three_attempts_on_one_candidate_counterexample:
  "tried (fst (snd (smart_bruteforce Some 989 False
      [Attempt failing_channel, Attempt failing_channel, Attempt failing_channel, Interrupt None]
      ''0000'' False idle)))
     = [''00000000'', ''00000000'', ''00000000''] \<and>
   session (fst (snd (smart_bruteforce Some 989 False
      [Attempt failing_channel, Attempt failing_channel, Attempt failing_channel, Interrupt None]
      ''0000'' False idle))) = Some ''0000'' \<and>
   tried (fst (snd (second_half_bruteforce Some 989
      [Attempt failing_channel, Attempt failing_channel, Attempt failing_channel, Interrupt None]
      ''1234'' ''001'' idle)))
     = [''12340019'', ''12340019'', ''12340019'']"
  by code_simp

section \<open>C8: the mask and the session file\<close>




section \<open>C9: when phase 2 stops\<close>

text \<open>
  C9 (as amended). Phase 2 stops with success exactly when an attempt ends with a last
  message number above 6, and then returns the PIN of that attempt. After every attempt
  that ends with a last message number of at most 6 and without \<^verbatim>\<open>WPS_FAIL\<close>, whatever
  the status (\<^verbatim>\<open>GOT_PSK\<close> included), it advances to the next second-half candidate;
  when candidate 999 has been passed it returns \<^verbatim>\<open>False\<close>. The candidates are tried in
  increasing order, each PIN being first half, second half and checksum.
\<close>

theorem second_half_stops_on_message_above_6:
  assumes "0 \<le> k" "0 \<le> j"
    and "\<forall>i<length fs. rejects2 decode (fs ! i) k (j + int i)"
    and "j + int (length fs) \<le> 1000"
  shows "(j + int (length fs) = 1000 \<longrightarrow>
           (\<exists>st'. second_half_bruteforce decode d (map Attempt fs @ rest) (f_half_of k) (s_half_of j) st
                    = (Returned None, st', rest)
               \<and> tried st' = tried st @ map (\<lambda>i. second_half_pin k (j + int i)) [0..<length fs])) \<and>
         (j + int (length fs) < 1000 \<and> accepts2 decode f k (j + int (length fs)) \<longrightarrow>
           (\<exists>st'. second_half_bruteforce decode d (map Attempt fs @ Attempt f # rest) (f_half_of k) (s_half_of j) st
                    = (Returned (Some (second_half_pin k (j + int (length fs)))), st', rest)
               \<and> tried st' = tried st @ map (\<lambda>i. second_half_pin k (j + int i)) [0..<Suc (length fs)]))"
proof (intro conjI impI)
  assume e: "j + int (length fs) = 1000"
  obtain st' where st':
    "second_half_bruteforce decode d (map Attempt fs @ rest) (f_half_of k) (s_half_of j) st
       = second_half_bruteforce decode d rest (f_half_of k) (s_half_of (j + int (length fs))) st'"
    "tried st' = tried st @ map (\<lambda>i. second_half_pin k (j + int i)) [0..<length fs]"
    using second_half_advance[OF assms(3) assms(1) assms(2) assms(4), of d rest st] by blast
  have "second_half_bruteforce decode d (map Attempt fs @ rest) (f_half_of k) (s_half_of j) st
          = (Returned None, st', rest)"
    using st'(1) by (simp only: e second_half_exhausted)
  then show "\<exists>st'. second_half_bruteforce decode d (map Attempt fs @ rest) (f_half_of k) (s_half_of j) st
                    = (Returned None, st', rest)
               \<and> tried st' = tried st @ map (\<lambda>i. second_half_pin k (j + int i)) [0..<length fs]"
    using st'(2) by (intro exI[of _ st']) simp
next
  assume a: "j + int (length fs) < 1000 \<and> accepts2 decode f k (j + int (length fs))"
  let ?m = "j + int (length fs)"
  obtain st' where st':
    "second_half_bruteforce decode d (map Attempt fs @ Attempt f # rest) (f_half_of k) (s_half_of j) st
       = second_half_bruteforce decode d (Attempt f # rest) (f_half_of k) (s_half_of ?m) st'"
    "tried st' = tried st @ map (\<lambda>i. second_half_pin k (j + int i)) [0..<length fs]"
    using second_half_advance[OF assms(3) assms(1) assms(2) assms(4), of d "Attempt f # rest" st] by blast
  let ?pin = "second_half_pin k ?m"
  let ?st1 = "snd (single_connection decode (f ?pin) ?pin st')"
  have m: "0 \<le> ?m" "?m < 1000" using assms(2) a by simp_all
  have r: "6 < last_m_message (conn ?st1)"
    using a by (simp add: accepts2_def single_connection_facts)
  have step: "second_half_bruteforce decode d (Attempt f # rest) (f_half_of k) (s_half_of ?m) st'
                = (Returned (Some ?pin), ?st1, rest)"
    using r by (simp add: second_half_step[OF assms(1) m] Let_def)
  have t: "tried ?st1 = tried st @ map (\<lambda>i. second_half_pin k (j + int i)) [0..<Suc (length fs)]"
    using st'(2) by (simp add: single_connection_facts)
  show "\<exists>st'. second_half_bruteforce decode d (map Attempt fs @ Attempt f # rest) (f_half_of k) (s_half_of j) st
                    = (Returned (Some (second_half_pin k (j + int (length fs)))), st', rest)
               \<and> tried st' = tried st @ map (\<lambda>i. second_half_pin k (j + int i)) [0..<Suc (length fs)]"
    using st'(1) step t by (intro exI[of _ ?st1]) simp
qed

theorem second_half_stops_on_message_above_6_witness:
  "(\<exists>st'. second_half_bruteforce Some 989
            [Attempt (simulated_channel ''12345670''), Attempt (simulated_channel ''12345670''),
             Attempt (simulated_channel ''12345670''), Interrupt None] (f_half_of 1234) (s_half_of 565) idle
          = (Returned (Some (second_half_pin 1234 567)), st', [Interrupt None])
      \<and> tried st' = [second_half_pin 1234 565, second_half_pin 1234 566, second_half_pin 1234 567]) \<and>
   (\<exists>st'. second_half_bruteforce Some 989
            [Attempt (simulated_channel ''12345670''), Attempt (simulated_channel ''12345670''),
             Interrupt None] (f_half_of 1234) (s_half_of 998) idle
          = (Returned None, st', [Interrupt None])
      \<and> tried st' = [second_half_pin 1234 998, second_half_pin 1234 999])"
proof -
  let ?ch = "simulated_channel ''12345670''"
  have h1: "\<forall>i<length [?ch, ?ch]. rejects2 Some ([?ch, ?ch] ! i) 1234 (565 + int i)"
    by (auto simp: less_Suc_eq intro!: simulated_rejects2)
  have h2: "\<forall>i<length [?ch, ?ch]. rejects2 Some ([?ch, ?ch] ! i) 1234 (998 + int i)"
    by (auto simp: less_Suc_eq intro!: simulated_rejects2)
  have a: "accepts2 Some ?ch 1234 567" by (rule simulated_accepts2)
  show ?thesis
    using second_half_stops_on_message_above_6[where k = 1234 and j = 565 and fs = "[?ch, ?ch]"
          and decode = Some and d = 989 and rest = "[Interrupt None]" and st = idle and f = ?ch]
      second_half_stops_on_message_above_6[where k = 1234 and j = 998 and fs = "[?ch, ?ch]"
          and decode = Some and d = 989 and rest = "[Interrupt None]" and st = idle and f = ?ch]
      h1 h2 a
    by (simp add: idle_def)
qed

theorem got_psk_below_message_7_counterexample:
  "fst (second_half_bruteforce Some 989 [Attempt key_only_channel, Interrupt None] ''1234'' ''001'' idle)
     = Raised KeyboardInterrupt \<and>
   status (conn (fst (snd (second_half_bruteforce Some 989 [Attempt key_only_channel, Interrupt None]
      ''1234'' ''001'' idle)))) = ''GOT_PSK'' \<and>
   last_m_message (conn (fst (snd (second_half_bruteforce Some 989 [Attempt key_only_channel, Interrupt None]
      ''1234'' ''001'' idle)))) = 0 \<and>
   tried (fst (snd (second_half_bruteforce Some 989 [Attempt key_only_channel, Interrupt None]
      ''1234'' ''001'' idle))) = [''12340019''] \<and>
   mask (fst (snd (second_half_bruteforce Some 989 [Attempt key_only_channel, Interrupt None]
      ''1234'' ''001'' idle))) = ''1234002''"
  by code_simp

end
